theory Spec2Isabelle
  imports Main "HOL-Library.Word"
begin

unbundle bit_operations_syntax

section \<open>The matrix generator script, embedded\<close>

text \<open>
  The script \<^verbatim>\<open>generate_matrices.py\<close> is one linear pass: create the output
  directory, seed a generator, and for every size and every label draw a square matrix,
  write it to a file and print the path. Its effects are made explicit here: the file
  system and the console are a \<open>world\<close> that every call takes and returns, an exception
  is an \<open>error\<close> value that ends the run, and the generator state is threaded through
  the loops.

  The calls into numpy and the operating system are not code of the script. The
  pseudo-random generator is a parameter (\<open>'g numpy_random\<close>); the file system and
  console calls are modelled after their behaviour, with what the platform decides
  (permission denied, disk full, a console that cannot be written) left to an
  \<open>os_env\<close> parameter. Running out of memory and interrupts are not modelled.
\<close>

datatype error =
  FileExistsError | FileNotFoundError | NotADirectoryError | IsADirectoryError
  | PermissionError | OSError | ValueError

subsection \<open>Arrays of 32-bit integers and their bytes\<close>

type_synonym byte = "8 word"
type_synonym int32 = "32 word"

text \<open>A numpy array: its shape and its elements in row-major (C) order.\<close>

record ndarray =
  shape :: "nat \<times> nat"
  data :: "int32 list"

text \<open>Element \<open>(i, j)\<close> of a two-dimensional array in row-major order.\<close>

definition item :: "ndarray \<Rightarrow> nat \<Rightarrow> nat \<Rightarrow> int32" where
  "item a i j = data a ! (i * snd (shape a) + j)"

datatype byteorder = Little | Big

definition le_bytes :: "int32 \<Rightarrow> byte list" where
  "le_bytes x = [ucast x, ucast (drop_bit 8 x), ucast (drop_bit 16 x), ucast (drop_bit 24 x)]"

text \<open>The four bytes of one element in the platform's byte order.\<close>

definition item_bytes :: "byteorder \<Rightarrow> int32 \<Rightarrow> byte list" where
  "item_bytes bo x = (case bo of Little \<Rightarrow> le_bytes x | Big \<Rightarrow> rev (le_bytes x))"

text \<open>\<^verbatim>\<open>ndarray.tofile\<close> writes the elements in row-major order, nothing else.\<close>

definition tobytes :: "byteorder \<Rightarrow> ndarray \<Rightarrow> byte list" where
  "tobytes bo a = concat (map (item_bytes bo) (data a))"

text \<open>Reading a file back as 32-bit integers (what a consumer of the files does).\<close>

definition le_word :: "byte \<Rightarrow> byte \<Rightarrow> byte \<Rightarrow> byte \<Rightarrow> int32" where
  "le_word b0 b1 b2 b3 =
     ucast b0 OR push_bit 8 (ucast b1) OR push_bit 16 (ucast b2) OR push_bit 24 (ucast b3)"

fun frombytes :: "byteorder \<Rightarrow> byte list \<Rightarrow> int32 list" where
  "frombytes bo (b0 # b1 # b2 # b3 # bs) =
     (case bo of Little \<Rightarrow> le_word b0 b1 b2 b3 | Big \<Rightarrow> le_word b3 b2 b1 b0) # frombytes bo bs"
| "frombytes bo bs = []"

subsection \<open>The generator\<close>

text \<open>
  \<^verbatim>\<open>np.random.default_rng(seed)\<close>, which raises for a seed it does not accept (a
  negative one), and one bounded draw of \<^verbatim>\<open>Generator.integers(low, high)\<close>, which
  returns the value and advances the state.
\<close>

record 'g numpy_random =
  default_rng :: "int \<Rightarrow> error + 'g"
  draw :: "int \<Rightarrow> int \<Rightarrow> 'g \<Rightarrow> int \<times> 'g"

text \<open>
  The documented contract of \<^verbatim>\<open>integers\<close>: a draw lies in \<open>[low, high)\<close>.
\<close>

definition in_range :: "'g numpy_random \<Rightarrow> bool" where
  "in_range G = (\<forall>low high g. low < high \<longrightarrow>
     low \<le> fst (draw G low high g) \<and> fst (draw G low high g) < high)"

text \<open>\<open>n\<close> draws in a row, each stored as \<^verbatim>\<open>dtype=np.int32\<close>.\<close>

fun draws :: "'g numpy_random \<Rightarrow> int \<Rightarrow> int \<Rightarrow> nat \<Rightarrow> 'g \<Rightarrow> int32 list \<times> 'g" where
  "draws G low high 0 g = ([], g)"
| "draws G low high (Suc n) g =
     (let (x, g') = draw G low high g;
          (xs, g'') = draws G low high n g'
      in (word_of_int x # xs, g''))"

text \<open>
  \<^verbatim>\<open>rng.integers(low, high, size=(rows, cols), dtype=np.int32)\<close>: the array is filled
  in row-major order from the generator, which is left advanced.
\<close>

definition integers :: "'g numpy_random \<Rightarrow> 'g \<Rightarrow> int \<Rightarrow> int \<Rightarrow> nat \<times> nat \<Rightarrow> ndarray \<times> 'g" where
  "integers G g low high size' =
     (let (xs, g') = draws G low high (fst size' * snd size') g
      in (\<lparr>shape = size', data = xs\<rparr>, g'))"

subsection \<open>Strings and paths\<close>

definition digit :: "nat \<Rightarrow> char" where
  "digit d = ''0123456789'' ! d"

text \<open>Python's \<^verbatim>\<open>str\<close> of a non-negative integer, as the f-string formats a size.\<close>

fun str :: "nat \<Rightarrow> string" where
  "str n = (if n < 10 then [digit n] else str (n div 10) @ [digit (n mod 10)])"

declare str.simps [simp del]

text \<open>\<^verbatim>\<open>os.path.join\<close> of two parts on a POSIX platform.\<close>

definition path_join :: "string \<Rightarrow> string \<Rightarrow> string" where
  "path_join a b =
     (if b \<noteq> [] \<and> hd b = CHR ''/'' then b
      else if a = [] \<or> last a = CHR ''/'' then a @ b
      else a @ ''/'' @ b)"

text \<open>
  The components of a path: the parts between slashes, with empty parts and
  \<^verbatim>\<open>.\<close> dropped, and a leading \<^verbatim>\<open>/\<close> kept as the first component of an
  absolute path.
\<close>

fun split_path :: "string \<Rightarrow> string \<Rightarrow> string list" where
  "split_path acc [] = (if acc = [] \<or> acc = ''.'' then [] else [acc])"
| "split_path acc (c # cs) =
     (if c = CHR ''/''
      then (if acc = [] \<or> acc = ''.'' then split_path [] cs else acc # split_path [] cs)
      else split_path (acc @ [c]) cs)"

definition components :: "string \<Rightarrow> string list" where
  "components p = (if p \<noteq> [] \<and> hd p = CHR ''/'' then [''/''] else []) @ split_path [] p"

text \<open>
  A file system entry is named by the components that lead to it from the working
  directory (the empty list) or from the root (\<open>[''/'']\<close>). Entering the component
  \<^verbatim>\<open>..\<close> goes back to the parent: it drops the last component, stays at the root,
  and above the working directory it is kept. (Symbolic links are not modelled.)
\<close>

definition enter :: "string list \<Rightarrow> string \<Rightarrow> string list" where
  "enter cur c =
     (if c = ''..''
      then (if cur = [] \<or> last cur = ''..'' then cur @ [c]
            else if cur = [''/''] then cur
            else butlast cur)
      else cur @ [c])"

definition resolve :: "string \<Rightarrow> string list" where
  "resolve p = foldl enter [] (components p)"

text \<open>The entries passed on the way along some components, the last one reached last.\<close>

fun visited_from :: "string list \<Rightarrow> string list \<Rightarrow> string list list" where
  "visited_from cur [] = []"
| "visited_from cur (c # cs) = enter cur c # visited_from (enter cur c) cs"

text \<open>The directories \<^verbatim>\<open>os.makedirs\<close> of a path goes through, the path itself last.\<close>

definition dirs_of :: "string \<Rightarrow> string list list" where
  "dirs_of p = visited_from [] (components p)"

subsection \<open>The file system and the console\<close>

datatype node = Dir | File "byte list"

type_synonym filesystem = "string list \<Rightarrow> node option"

record world =
  fs :: filesystem
  stdout :: "string list"

text \<open>
  How a write can go wrong once the directory of the file is there: the platform refuses
  to open the file; or the write stops after some bytes and raises, leaving a truncated
  file; or the bytes are cut_short short without any exception (numpy writes through a
  buffer and does not look at the result of the final flush when it closes the file).
\<close>

datatype fault = Refused | Truncated nat | Silent nat

text \<open>
  What the platform decides: its byte order, whether a directory may be created,
  whether a write goes through, and whether a line can be written to the console
  (given the lines printed so far).
\<close>

record os_env =
  native :: byteorder
  mkdir_denied :: "filesystem \<Rightarrow> string list \<Rightarrow> bool"
  write_fault :: "filesystem \<Rightarrow> string list \<Rightarrow> byte list \<Rightarrow> fault option"
  console_fault :: "string list \<Rightarrow> string \<Rightarrow> bool"

text \<open>The working directory, the directories above it and the root always exist.\<close>

definition is_dir :: "filesystem \<Rightarrow> string list \<Rightarrow> bool" where
  "is_dir f p = (list_all (\<lambda>c. c = ''..'') p \<or> p = [''/''] \<or> f p = Some Dir)"

text \<open>
  Following components from a directory: every one of them must lead to a directory.
  The result is the directory reached, or the exception the platform raises.
\<close>

fun walk :: "filesystem \<Rightarrow> string list \<Rightarrow> string list \<Rightarrow> error + string list" where
  "walk f cur [] = Inr cur"
| "walk f cur (c # cs) =
     (let p = enter cur c in
      if is_dir f p then walk f p cs
      else Inl (case f p of Some (File bs) \<Rightarrow> NotADirectoryError | _ \<Rightarrow> FileNotFoundError))"

text \<open>
  \<^verbatim>\<open>os.makedirs(name, exist_ok=True)\<close>: follow the components, keep the
  directories that exist, create the missing ones; a component that is a file, or a
  refused creation, raises and leaves the directories created so far.
\<close>

fun makedirs_from :: "os_env \<Rightarrow> string list \<Rightarrow> string list \<Rightarrow> filesystem \<Rightarrow> error option \<times> filesystem" where
  "makedirs_from env cur [] f = (None, f)"
| "makedirs_from env cur (c # cs) f =
     (let p = enter cur c in
      if is_dir f p then makedirs_from env p cs f
      else if f p \<noteq> None then (Some (if cs = [] then FileExistsError else NotADirectoryError), f)
      else if mkdir_denied env f p then (Some PermissionError, f)
      else makedirs_from env p cs (f(p \<mapsto> Dir)))"

definition makedirs :: "os_env \<Rightarrow> string \<Rightarrow> world \<Rightarrow> error option \<times> world" where
  "makedirs env name w =
     (if name = [] then (Some FileNotFoundError, w)
      else let (e, f) = makedirs_from env [] (components name) (fs w) in (e, w\<lparr>fs := f\<rparr>))"

text \<open>
  \<^verbatim>\<open>matrix.tofile(filepath)\<close>: open the file for writing (creating or truncating
  it) and write the array's bytes. The components before the last must lead to a
  directory and the path must not name a directory. A write that goes wrong leaves
  what the fault says; only a refusal and a raising short write are exceptions.
\<close>

definition tofile :: "os_env \<Rightarrow> ndarray \<Rightarrow> string \<Rightarrow> world \<Rightarrow> error option \<times> world" where
  "tofile env a filepath w =
     (let cs = components filepath; bs = tobytes (native env) a in
      case walk (fs w) [] (butlast cs) of
        Inl e \<Rightarrow> (Some e, w)
      | Inr _ \<Rightarrow>
          (let p = resolve filepath in
           if cs = [] \<or> last cs = ''..'' \<or> is_dir (fs w) p then (Some IsADirectoryError, w)
           else case write_fault env (fs w) p bs of
                  None \<Rightarrow> (None, w\<lparr>fs := (fs w)(p \<mapsto> File bs)\<rparr>)
                | Some Refused \<Rightarrow> (Some PermissionError, w)
                | Some (Truncated k) \<Rightarrow> (Some OSError, w\<lparr>fs := (fs w)(p \<mapsto> File (take k bs))\<rparr>)
                | Some (Silent k) \<Rightarrow> (None, w\<lparr>fs := (fs w)(p \<mapsto> File (take k bs))\<rparr>)))"

text \<open>
  \<^verbatim>\<open>print(line)\<close>: the line is added to what the script has printed, or the
  console cannot be written and an \<^verbatim>\<open>OSError\<close> is raised.
\<close>

definition print :: "os_env \<Rightarrow> string \<Rightarrow> world \<Rightarrow> error option \<times> world" where
  "print env line w =
     (if console_fault env (stdout w) line then (Some OSError, w)
      else (None, w\<lparr>stdout := stdout w @ [line]\<rparr>))"

subsection \<open>The script\<close>

definition MATRIX_SIZES :: "nat list" where
  "MATRIX_SIZES = [64, 128, 256, 512, 1024]"

definition OUTPUT_DIR :: string where
  "OUTPUT_DIR = ''matrices''"

definition SEED :: int where
  "SEED = 42"

definition filename_of :: "string \<Rightarrow> nat \<Rightarrow> string" where
  "filename_of matrix_label size' = matrix_label @ ''_'' @ str size' @ ''.bin''"

text \<open>The inner loop: one matrix, one file and one console line per label.\<close>

fun label_loop ::
  "'g numpy_random \<Rightarrow> os_env \<Rightarrow> string \<Rightarrow> nat \<Rightarrow> string list \<Rightarrow> 'g \<Rightarrow> world
     \<Rightarrow> error option \<times> 'g \<times> world" where
  "label_loop G env dir size' [] rng w = (None, rng, w)"
| "label_loop G env dir size' (matrix_label # labels) rng w =
     (let (matrix, rng') = integers G rng 0 10 (size', size');
          filename = filename_of matrix_label size';
          filepath = path_join dir filename
      in case tofile env matrix filepath w of
           (Some e, w') \<Rightarrow> (Some e, rng', w')
         | (None, w') \<Rightarrow>
             (case print env (''Saved '' @ filepath) w' of
                (Some e, w'') \<Rightarrow> (Some e, rng', w'')
              | (None, w'') \<Rightarrow> label_loop G env dir size' labels rng' w''))"

text \<open>The outer loop over the sizes.\<close>

fun size_loop ::
  "'g numpy_random \<Rightarrow> os_env \<Rightarrow> string \<Rightarrow> string list \<Rightarrow> nat list \<Rightarrow> 'g \<Rightarrow> world
     \<Rightarrow> error option \<times> 'g \<times> world" where
  "size_loop G env dir labels [] rng w = (None, rng, w)"
| "size_loop G env dir labels (size' # sizes) rng w =
     (case label_loop G env dir size' labels rng w of
        (Some e, rng', w') \<Rightarrow> (Some e, rng', w')
      | (None, rng', w') \<Rightarrow> size_loop G env dir labels sizes rng' w')"

text \<open>
  The whole script for a configuration: the directory first, then the generator, then
  the loops. The result is the exception that ended the run, if any, and the world the
  run leaves.
\<close>

definition generate ::
  "'g numpy_random \<Rightarrow> os_env \<Rightarrow> nat list \<Rightarrow> string \<Rightarrow> int \<Rightarrow> string list \<Rightarrow> world
     \<Rightarrow> error option \<times> world" where
  "generate G env sizes dir seed labels w =
     (case makedirs env dir w of
        (Some e, w') \<Rightarrow> (Some e, w')
      | (None, w') \<Rightarrow>
          (case default_rng G seed of
             Inl e \<Rightarrow> (Some e, w')
           | Inr rng \<Rightarrow>
               (let (e, rng', w'') = size_loop G env dir labels sizes rng w'
                in (e, w''))))"

definition main :: "'g numpy_random \<Rightarrow> os_env \<Rightarrow> world \<Rightarrow> error option \<times> world" where
  "main G env w = generate G env MATRIX_SIZES OUTPUT_DIR SEED [''A'', ''B''] w"

subsection \<open>Notions used to state the properties\<close>

text \<open>
  The pairs of size and label in the order the nested loops visit them: sizes in the
  outer loop, labels in the inner one.
\<close>

definition jobs :: "nat list \<Rightarrow> string list \<Rightarrow> (nat \<times> string) list" where
  "jobs sizes labels = concat (map (\<lambda>size'. map (Pair size') labels) sizes)"

definition filepath_of :: "string \<Rightarrow> nat \<times> string \<Rightarrow> string" where
  "filepath_of dir j = path_join dir (filename_of (snd j) (fst j))"

text \<open>The nested loops as one loop over the jobs (shown equal to them below).\<close>

fun job_loop ::
  "'g numpy_random \<Rightarrow> os_env \<Rightarrow> string \<Rightarrow> (nat \<times> string) list \<Rightarrow> 'g \<Rightarrow> world
     \<Rightarrow> error option \<times> 'g \<times> world" where
  "job_loop G env dir [] rng w = (None, rng, w)"
| "job_loop G env dir (j # js) rng w =
     (let (matrix, rng') = integers G rng 0 10 (fst j, fst j);
          filepath = filepath_of dir j
      in case tofile env matrix filepath w of
           (Some e, w') \<Rightarrow> (Some e, rng', w')
         | (None, w') \<Rightarrow>
             (case print env (''Saved '' @ filepath) w' of
                (Some e, w'') \<Rightarrow> (Some e, rng', w'')
              | (None, w'') \<Rightarrow> job_loop G env dir js rng' w''))"

text \<open>
  The matrices a run draws for a list of jobs, from a generator state: each job takes
  the next \<open>size * size\<close> draws of the one stream.
\<close>

fun matrices :: "'g numpy_random \<Rightarrow> 'g \<Rightarrow> (nat \<times> string) list \<Rightarrow> ndarray list" where
  "matrices G rng [] = []"
| "matrices G rng (j # js) =
     (let (matrix, rng') = integers G rng 0 10 (fst j, fst j) in matrix # matrices G rng' js)"

text \<open>The first \<open>n\<close> values of the stream of draws in \<open>[0, 10)\<close> from a state.\<close>

definition stream :: "'g numpy_random \<Rightarrow> 'g \<Rightarrow> nat \<Rightarrow> int32 list" where
  "stream G rng n = fst (draws G 0 10 n rng)"

text \<open>The number of draws the jobs before the \<open>k\<close>-th one take.\<close>

definition offset :: "(nat \<times> string) list \<Rightarrow> nat \<Rightarrow> nat" where
  "offset js k = sum_list (map (\<lambda>j. fst j * fst j) (take k js))"

text \<open>Writing a list of files, in order, into a file system.\<close>

fun write_all :: "filesystem \<Rightarrow> (string list \<times> byte list) list \<Rightarrow> filesystem" where
  "write_all f [] = f"
| "write_all f ((p, bs) # ws) = write_all (f(p \<mapsto> File bs)) ws"

text \<open>
  The files a complete run over the jobs writes, in order: path and content, when no
  write is cut_short short.
\<close>

definition writes ::
  "'g numpy_random \<Rightarrow> byteorder \<Rightarrow> string \<Rightarrow> 'g \<Rightarrow> (nat \<times> string) list
     \<Rightarrow> (string list \<times> byte list) list" where
  "writes G bo dir rng js =
     zip (map (\<lambda>j. resolve (filepath_of dir j)) js) (map (tobytes bo) (matrices G rng js))"

text \<open>The same files with the \<open>i\<close>-th content cut_short to its first \<open>ks ! i\<close> bytes.\<close>

definition cut_short :: "nat list \<Rightarrow> (string list \<times> byte list) list \<Rightarrow> (string list \<times> byte list) list" where
  "cut_short ks ws = map (\<lambda>(k, (p, bs)). (p, take k bs)) (zip ks ws)"

text \<open>A platform that never cuts a write short without raising.\<close>

definition whole_writes :: "os_env \<Rightarrow> bool" where
  "whole_writes env = (\<forall>f p bs k. write_fault env f p bs = Some (Silent k) \<longrightarrow> length bs \<le> k)"


definition saved_lines :: "string \<Rightarrow> (nat \<times> string) list \<Rightarrow> string list" where
  "saved_lines dir js = map (\<lambda>j. ''Saved '' @ filepath_of dir j) js"

text \<open>The ten files and the ten console lines of the script's own configuration.\<close>

definition expected_files :: "string list list" where
  "expected_files =
     [[''matrices'', ''A_64.bin''], [''matrices'', ''B_64.bin''],
      [''matrices'', ''A_128.bin''], [''matrices'', ''B_128.bin''],
      [''matrices'', ''A_256.bin''], [''matrices'', ''B_256.bin''],
      [''matrices'', ''A_512.bin''], [''matrices'', ''B_512.bin''],
      [''matrices'', ''A_1024.bin''], [''matrices'', ''B_1024.bin'']]"

definition expected_lines :: "string list" where
  "expected_lines =
     [''Saved matrices/A_64.bin'', ''Saved matrices/B_64.bin'',
      ''Saved matrices/A_128.bin'', ''Saved matrices/B_128.bin'',
      ''Saved matrices/A_256.bin'', ''Saved matrices/B_256.bin'',
      ''Saved matrices/A_512.bin'', ''Saved matrices/B_512.bin'',
      ''Saved matrices/A_1024.bin'', ''Saved matrices/B_1024.bin'']"

text \<open>Reading a decimal numeral back (the inverse of \<open>str\<close>).\<close>

definition digit_value :: "char \<Rightarrow> nat" where
  "digit_value c = of_char c - 48"

definition parse_nat :: "string \<Rightarrow> nat" where
  "parse_nat s = foldl (\<lambda>n c. 10 * n + digit_value c) 0 s"

text \<open>A label that is a plain part of a file name.\<close>

definition plain_label :: "string \<Rightarrow> bool" where
  "plain_label l = (CHR ''/'' \<notin> set l)"

subsection \<open>A platform without failures and a generator to run the script with\<close>

definition plain_env :: "byteorder \<Rightarrow> os_env" where
  "plain_env bo =
     \<lparr>native = bo, mkdir_denied = (\<lambda>f p. False), write_fault = (\<lambda>f p bs. None),
      console_fault = (\<lambda>out line. False)\<rparr>"

definition empty_world :: world where
  "empty_world = \<lparr>fs = (\<lambda>p. None), stdout = []\<rparr>"

text \<open>A counter as generator: the state is the number of the draw.\<close>

definition counter_random :: "nat numpy_random" where
  "counter_random =
     \<lparr>default_rng = (\<lambda>seed. if seed < 0 then Inl ValueError else Inr (nat seed)),
      draw = (\<lambda>low high g. (low + int g mod (high - low), Suc g))\<rparr>"

section \<open>Bytes of an array\<close>

lemma le_word_le_bytes:
  "le_word (ucast x) (ucast (drop_bit 8 x)) (ucast (drop_bit 16 x)) (ucast (drop_bit 24 x)) = (x::int32)"
  unfolding le_word_def
proof (rule bit_word_eqI)
  fix n assume "n < LENGTH(32)"
  then have n: "n < 32" by simp
  consider "n < 8" | "8 \<le> n" "n < 16" | "16 \<le> n" "n < 24" | "24 \<le> n" "n < 32"
    using n by linarith
  then show "bit (ucast (ucast x :: byte) OR push_bit 8 (ucast (ucast (drop_bit 8 x) :: byte)) OR
          push_bit 16 (ucast (ucast (drop_bit 16 x) :: byte)) OR
          push_bit 24 (ucast (ucast (drop_bit 24 x) :: byte)) :: int32) n = bit x n"
    by cases (auto simp add: bit_simps)
qed

lemma frombytes_item_bytes: "frombytes bo (item_bytes bo x @ bs) = x # frombytes bo bs"
  by (cases bo) (simp_all add: item_bytes_def le_bytes_def le_word_le_bytes)

lemma frombytes_tobytes: "frombytes bo (tobytes bo a) = data a"
proof -
  have "frombytes bo (concat (map (item_bytes bo) xs)) = xs" for xs
    by (induction xs) (simp_all add: frombytes_item_bytes)
  then show ?thesis by (simp add: tobytes_def)
qed

lemma length_item_bytes: "length (item_bytes bo x) = 4"
  by (cases bo) (simp_all add: item_bytes_def le_bytes_def)

lemma length_tobytes: "length (tobytes bo a) = 4 * length (data a)"
proof -
  have "length (concat (map (item_bytes bo) xs)) = 4 * length xs" for xs
    by (induction xs) (simp_all add: length_item_bytes)
  then show ?thesis by (simp add: tobytes_def)
qed


lemma frombytes_short: "length bs < 4 \<Longrightarrow> frombytes bo bs = []"
  by (cases "(bo, bs)" rule: frombytes.cases) simp_all

lemma frombytes_prefix:
  "frombytes bo (take k (concat (map (item_bytes bo) xs))) = take (k div 4) xs"
proof (induction xs arbitrary: k)
  case Nil
  then show ?case by simp
next
  case (Cons x xs)
  show ?case
  proof (cases "k < 4")
    case True
    then have "length (take k (concat (map (item_bytes bo) (x # xs)))) < 4" by simp
    then have "frombytes bo (take k (concat (map (item_bytes bo) (x # xs)))) = []"
      by (rule frombytes_short)
    with True show ?thesis by simp
  next
    case False
    then obtain m where k: "k = 4 + m" by (metis le_add_diff_inverse not_less)
    have "take k (concat (map (item_bytes bo) (x # xs)))
        = item_bytes bo x @ take m (concat (map (item_bytes bo) xs))"
      by (simp add: k length_item_bytes)
    then have "frombytes bo (take k (concat (map (item_bytes bo) (x # xs))))
        = x # take (m div 4) xs"
      by (simp add: frombytes_item_bytes Cons.IH)
    moreover have "(4 + m) div 4 = Suc (m div 4)" by simp
    ultimately show ?thesis unfolding k by (simp only: take_Suc_Cons)
  qed
qed

lemma frombytes_cut: "set (frombytes bo (take k (tobytes bo a))) \<subseteq> set (data a)"
  by (simp add: tobytes_def frombytes_prefix set_take_subset)

section \<open>The generator's draws\<close>

lemma length_draws: "length (fst (draws G low high n g)) = n"
  by (induction n arbitrary: g) (simp_all add: split_beta Let_def)

lemma draws_in_range:
  assumes "in_range G" "low < high" "x \<in> set (fst (draws G low high n g))"
  shows "\<exists>v. x = word_of_int v \<and> low \<le> v \<and> v < high"
  using assms(3)
proof (induction n arbitrary: g)
  case 0
  then show ?case by simp
next
  case (Suc n)
  from assms(1,2) have "low \<le> fst (draw G low high g) \<and> fst (draw G low high g) < high"
    by (simp add: in_range_def)
  with Suc show ?case
    by (auto simp add: split_beta Let_def)
qed

lemma sint_small: "0 \<le> v \<Longrightarrow> v < 10 \<Longrightarrow> sint (word_of_int v :: int32) = v"
  by (simp add: sint_sbintrunc' signed_take_bit_int_eq_self)

lemma draws_add:
  "draws G low high (m + n) g =
     (fst (draws G low high m g) @ fst (draws G low high n (snd (draws G low high m g))),
      snd (draws G low high n (snd (draws G low high m g))))"
  by (induction m arbitrary: g) (simp_all add: split_beta Let_def)

lemma shape_integers: "shape (fst (integers G g low high sh)) = sh"
  by (simp add: integers_def split_beta)

lemma data_integers: "data (fst (integers G g low high sh)) = fst (draws G low high (fst sh * snd sh) g)"
  by (simp add: integers_def split_beta)

lemma snd_integers: "snd (integers G g low high sh) = snd (draws G low high (fst sh * snd sh) g)"
  by (simp add: integers_def split_beta)

section \<open>Decimal numerals\<close>

lemma digit_cases:
  assumes "(d::nat) < 10"
  obtains "d = 0" | "d = 1" | "d = 2" | "d = 3" | "d = 4" | "d = 5" | "d = 6" | "d = 7" | "d = 8" | "d = 9"
  using assms by atomize_elim arith

lemma digit_value_digit: "d < 10 \<Longrightarrow> digit_value (digit d) = d"
  by (erule digit_cases) (simp_all add: digit_def digit_value_def)

lemma digit_in_digits: "d < 10 \<Longrightarrow> digit d \<in> set ''0123456789''"
  by (erule digit_cases) (simp_all add: digit_def)

lemma set_str: "set (str n) \<subseteq> set ''0123456789''"
proof (induction n rule: str.induct)
  case (1 n)
  show ?case
  proof (cases "n < 10")
    case True
    then show ?thesis using digit_in_digits[of n] by (subst str.simps) simp
  next
    case False
    with 1 have "set (str (n div 10)) \<subseteq> set ''0123456789''" by simp
    moreover have "digit (n mod 10) \<in> set ''0123456789''" by (rule digit_in_digits) simp
    ultimately show ?thesis using False by (subst str.simps) simp
  qed
qed

lemma str_nonempty: "str n \<noteq> []"
  by (subst str.simps) simp

lemma parse_nat_snoc: "parse_nat (s @ [c]) = 10 * parse_nat s + digit_value c"
  by (simp add: parse_nat_def)

lemma parse_nat_str: "parse_nat (str n) = n"
proof (induction n rule: str.induct)
  case (1 n)
  show ?case
  proof (cases "n < 10")
    case True
    then show ?thesis by (subst str.simps) (simp add: parse_nat_def digit_value_digit)
  next
    case False
    with 1 have "parse_nat (str (n div 10)) = n div 10" by simp
    then show ?thesis using False
      by (subst str.simps) (simp add: parse_nat_snoc digit_value_digit)
  qed
qed

lemma str_inject: "str m = str n \<Longrightarrow> m = n"
  by (metis parse_nat_str)

lemma slash_notin_str: "CHR ''/'' \<notin> set (str n)"
  using set_str[of n] by auto

lemma underscore_notin_str: "CHR ''_'' \<notin> set (str n)"
  using set_str[of n] by auto

section \<open>Writing files into a file system\<close>

lemma write_all_other: "p \<notin> fst ` set ws \<Longrightarrow> write_all f ws p = f p"
  by (induction f ws rule: write_all.induct) auto

lemma write_all_mem:
  "p \<in> fst ` set ws \<Longrightarrow> \<exists>bs. (p, bs) \<in> set ws \<and> write_all f ws p = Some (File bs)"
proof (induction f ws rule: write_all.induct)
  case (1 f)
  then show ?case by simp
next
  case (2 f q bs ws)
  show ?case
  proof (cases "p \<in> fst ` set ws")
    case True
    from "2.IH"[OF True] obtain cs where
      "(p, cs) \<in> set ws" "write_all (f(q \<mapsto> File bs)) ws p = Some (File cs)" by blast
    then have "(p, cs) \<in> set ((q, bs) # ws) \<and> write_all f ((q, bs) # ws) p = Some (File cs)"
      by (simp add: fun_upd_def)
    then show ?thesis by blast
  next
    case False
    with "2.prems" have "p = q" by auto
    with False show ?thesis by (simp add: write_all_other)
  qed
qed

lemma write_all_same:
  "p \<in> fst ` set ws \<Longrightarrow> write_all f ws p = write_all g ws p"
proof (induction f ws arbitrary: g rule: write_all.induct)
  case (1 f)
  then show ?case by simp
next
  case (2 f q bs ws)
  show ?case
  proof (cases "p \<in> fst ` set ws")
    case True
    from "2.IH"[OF True, of "g(q \<mapsto> File bs)"] show ?thesis by (simp add: fun_upd_def)
  next
    case False
    with "2.prems" have "p = q" by auto
    with False show ?thesis by (simp add: write_all_other)
  qed
qed

lemma write_all_idem: "write_all (write_all f ws) ws = write_all f ws"
proof
  fix p
  show "write_all (write_all f ws) ws p = write_all f ws p"
  proof (cases "p \<in> fst ` set ws")
    case True
    then show ?thesis by (rule write_all_same)
  next
    case False
    then show ?thesis by (simp add: write_all_other)
  qed
qed

lemma write_all_distinct:
  "distinct (map fst ws) \<Longrightarrow> (p, bs) \<in> set ws \<Longrightarrow> write_all f ws p = Some (File bs)"
proof (induction f ws rule: write_all.induct)
  case (1 f)
  then show ?case by simp
next
  case (2 f q cs ws)
  show ?case
  proof (cases "(p, bs) \<in> set ws")
    case True
    from "2.prems" have "distinct (map fst ws)" by simp
    from "2.IH"[OF this True] show ?thesis by (simp add: fun_upd_def)
  next
    case False
    with "2.prems" have "p = q" "bs = cs" "q \<notin> fst ` set ws" by auto
    then show ?thesis by (simp add: write_all_other)
  qed
qed


lemma cut_Nil: "cut_short ks [] = []" "cut_short [] ws = []"
  by (simp_all add: cut_short_def)

lemma cut_Cons: "cut_short (k # ks) ((p, bs) # ws) = (p, take k bs) # cut_short ks ws"
  by (simp add: cut_short_def)

lemma map_fst_cut: "length ks = length ws \<Longrightarrow> map fst (cut_short ks ws) = map fst ws"
  by (induction ks ws rule: list_induct2) (auto simp add: cut_short_def)

lemma length_cut: "length ks = length ws \<Longrightarrow> length (cut_short ks ws) = length ws"
  by (simp add: cut_short_def)

lemma cut_mem:
  "(p, cs) \<in> set (cut_short ks ws) \<Longrightarrow> \<exists>bs k. (p, bs) \<in> set ws \<and> cs = take k bs"
  by (auto simp add: cut_short_def dest: set_zip_rightD)

section \<open>The loops\<close>

lemma job_loop_append:
  "job_loop G env dir (js @ ks) rng w =
     (case job_loop G env dir js rng w of
        (Some e, r) \<Rightarrow> (Some e, r)
      | (None, rng', w') \<Rightarrow> job_loop G env dir ks rng' w')"
  by (induction js arbitrary: rng w) (auto simp add: split_beta Let_def split: prod.splits option.splits)

lemma label_loop_flat:
  "label_loop G env dir n labels rng w = job_loop G env dir (map (Pair n) labels) rng w"
  by (induction labels arbitrary: rng w)
     (auto simp add: split_beta Let_def filepath_of_def split: prod.splits option.splits)

lemma size_loop_flat:
  "size_loop G env dir labels sizes rng w = job_loop G env dir (jobs sizes labels) rng w"
  by (induction sizes arbitrary: rng w)
     (auto simp add: jobs_def job_loop_append label_loop_flat split: prod.splits option.splits)

lemma tofile_ok:
  assumes "tofile env a filepath w = (None, w')"
  shows "\<exists>k. w' = w\<lparr>fs := (fs w)(resolve filepath \<mapsto> File (take k (tobytes (native env) a)))\<rparr>
          \<and> (whole_writes env \<longrightarrow> take k (tobytes (native env) a) = tobytes (native env) a)"
    and "\<not> is_dir (fs w) (resolve filepath)"
proof -
  let ?bs = "tobytes (native env) a"
  let ?p = "resolve filepath"
  from assms have nd: "\<not> is_dir (fs w) ?p"
    by (auto simp add: tofile_def Let_def split: if_splits option.splits fault.splits sum.splits)
  then show "\<not> is_dir (fs w) ?p" .
  from assms consider
    "write_fault env (fs w) ?p ?bs = None" "w' = w\<lparr>fs := (fs w)(?p \<mapsto> File ?bs)\<rparr>"
    | k where "write_fault env (fs w) ?p ?bs = Some (Silent k)"
        "w' = w\<lparr>fs := (fs w)(?p \<mapsto> File (take k ?bs))\<rparr>"
    by (auto simp add: tofile_def Let_def split: if_splits option.splits fault.splits sum.splits)
  then show "\<exists>k. w' = w\<lparr>fs := (fs w)(?p \<mapsto> File (take k ?bs))\<rparr>
          \<and> (whole_writes env \<longrightarrow> take k ?bs = ?bs)"
  proof cases
    case 1
    then have "w' = w\<lparr>fs := (fs w)(?p \<mapsto> File (take (length ?bs) ?bs))\<rparr>
          \<and> (whole_writes env \<longrightarrow> take (length ?bs) ?bs = ?bs)" by simp
    then show ?thesis by blast
  next
    case 2
    then have "w' = w\<lparr>fs := (fs w)(?p \<mapsto> File (take k ?bs))\<rparr>
          \<and> (whole_writes env \<longrightarrow> take k ?bs = ?bs)"
      by (auto simp add: whole_writes_def)
    then show ?thesis by blast
  qed
qed

lemma tofile_fail:
  assumes "tofile env a filepath w = (Some e, w')"
  shows "stdout w' = stdout w"
    and "p \<noteq> resolve filepath \<Longrightarrow> fs w' p = fs w p"
  using assms
  by (auto simp add: tofile_def Let_def split: if_splits option.splits fault.splits sum.splits)

lemma print_ok: "print env line w = (None, w') \<Longrightarrow> w' = w\<lparr>stdout := stdout w @ [line]\<rparr>"
  by (auto simp add: print_def split: if_splits)

lemma print_fail: "print env line w = (Some e, w') \<Longrightarrow> w' = w \<and> e = OSError"
  by (auto simp add: print_def split: if_splits)

lemma write_all_append: "write_all f (ws @ vs) = write_all (write_all f ws) vs"
  by (induction ws arbitrary: f) auto

lemma matrices_length: "length (matrices G rng js) = length js"
  by (induction js arbitrary: rng) (simp_all add: split_beta)

lemma writes_Nil: "writes G bo dir rng [] = []"
  by (simp add: writes_def)

lemma writes_Cons:
  "writes G bo dir rng (j # js) =
     (resolve (filepath_of dir j), tobytes bo (fst (integers G rng 0 10 (fst j, fst j))))
       # writes G bo dir (snd (integers G rng 0 10 (fst j, fst j))) js"
  by (simp add: writes_def split_beta)

lemma length_writes: "length (writes G bo dir rng js) = length js"
  by (simp add: writes_def matrices_length)

lemma map_fst_writes: "map fst (writes G bo dir rng js) = map (\<lambda>j. resolve (filepath_of dir j)) js"
  by (simp add: writes_def matrices_length)

text \<open>One turn of the loop that completes: the write, then the line.\<close>

lemma job_loop_step:
  assumes "job_loop G env dir (j # js) rng w = (None, rng', w')"
  shows "\<exists>w1 w2. tofile env (fst (integers G rng 0 10 (fst j, fst j))) (filepath_of dir j) w = (None, w1)
       \<and> print env (''Saved '' @ filepath_of dir j) w1 = (None, w2)
       \<and> job_loop G env dir js (snd (integers G rng 0 10 (fst j, fst j))) w2 = (None, rng', w')"
proof -
  let ?a = "fst (integers G rng 0 10 (fst j, fst j))"
  obtain eo w1 where t0: "tofile env ?a (filepath_of dir j) w = (eo, w1)"
    by (cases "tofile env ?a (filepath_of dir j) w")
  with assms have "eo = None" by (cases eo) (simp_all add: split_beta Let_def)
  with t0 have t: "tofile env ?a (filepath_of dir j) w = (None, w1)" by simp
  obtain po w2 where p0: "print env (''Saved '' @ filepath_of dir j) w1 = (po, w2)"
    by (cases "print env (''Saved '' @ filepath_of dir j) w1")
  with assms t have "po = None" by (cases po) (simp_all add: split_beta Let_def)
  with p0 have p: "print env (''Saved '' @ filepath_of dir j) w1 = (None, w2)" by simp
  with assms t have "job_loop G env dir js (snd (integers G rng 0 10 (fst j, fst j))) w2 = (None, rng', w')"
    by (simp add: split_beta Let_def)
  with t p show ?thesis by blast
qed

lemma job_loop_ok:
  assumes "job_loop G env dir js rng w = (None, rng', w')"
  shows "\<exists>ks. length ks = length js
       \<and> fs w' = write_all (fs w) (cut_short ks (writes G (native env) dir rng js))
       \<and> stdout w' = stdout w @ saved_lines dir js
       \<and> (whole_writes env \<longrightarrow>
            cut_short ks (writes G (native env) dir rng js) = writes G (native env) dir rng js)"
  using assms
proof (induction js arbitrary: rng w)
  case Nil
  then have "length [] = length ([] :: (nat \<times> string) list)
       \<and> fs w' = write_all (fs w) (cut_short [] (writes G (native env) dir rng []))
       \<and> stdout w' = stdout w @ saved_lines dir []
       \<and> (whole_writes env \<longrightarrow>
            cut_short [] (writes G (native env) dir rng []) = writes G (native env) dir rng [])"
    by (simp add: writes_Nil saved_lines_def cut_Nil)
  then show ?case by blast
next
  case (Cons j js)
  let ?a = "fst (integers G rng 0 10 (fst j, fst j))"
  let ?r = "snd (integers G rng 0 10 (fst j, fst j))"
  let ?p = "resolve (filepath_of dir j)"
  let ?bs = "tobytes (native env) ?a"
  from job_loop_step[OF Cons.prems] obtain w1 w2 where
    t: "tofile env ?a (filepath_of dir j) w = (None, w1)" and
    p: "print env (''Saved '' @ filepath_of dir j) w1 = (None, w2)" and
    l: "job_loop G env dir js ?r w2 = (None, rng', w')" by blast
  from tofile_ok(1)[OF t] obtain k where
    k: "w1 = w\<lparr>fs := (fs w)(?p \<mapsto> File (take k ?bs))\<rparr>"
       "whole_writes env \<longrightarrow> take k ?bs = ?bs" by blast
  from k(1) print_ok[OF p] have f2: "fs w2 = (fs w)(?p \<mapsto> File (take k ?bs))"
    and s2: "stdout w2 = stdout w @ [''Saved '' @ filepath_of dir j]" by simp_all
  from Cons.IH[OF l] obtain ks where
    ks: "length ks = length js"
        "fs w' = write_all (fs w2) (cut_short ks (writes G (native env) dir ?r js))"
        "stdout w' = stdout w2 @ saved_lines dir js"
        "whole_writes env \<longrightarrow>
            cut_short ks (writes G (native env) dir ?r js) = writes G (native env) dir ?r js" by blast
  have "length (k # ks) = length (j # js)
       \<and> fs w' = write_all (fs w) (cut_short (k # ks) (writes G (native env) dir rng (j # js)))
       \<and> stdout w' = stdout w @ saved_lines dir (j # js)
       \<and> (whole_writes env \<longrightarrow>
            cut_short (k # ks) (writes G (native env) dir rng (j # js))
              = writes G (native env) dir rng (j # js))"
    using ks k(2) unfolding f2 s2 writes_Cons cut_Cons
    by (simp add: saved_lines_def)
  then show ?case by blast
qed

lemma job_loop_fail:
  assumes "job_loop G env dir js rng w = (Some e, rng', w')"
  shows "\<exists>js1 j js2 rng1 w1. js = js1 @ j # js2
       \<and> job_loop G env dir js1 rng w = (None, rng1, w1)
       \<and> (tofile env (fst (integers G rng1 0 10 (fst j, fst j))) (filepath_of dir j) w1 = (Some e, w')
          \<or> (\<exists>w2. tofile env (fst (integers G rng1 0 10 (fst j, fst j))) (filepath_of dir j) w1
                     = (None, w2)
                \<and> print env (''Saved '' @ filepath_of dir j) w2 = (Some e, w')))"
  using assms
proof (induction js arbitrary: rng w)
  case Nil
  then show ?case by simp
next
  case (Cons j js)
  let ?a = "fst (integers G rng 0 10 (fst j, fst j))"
  let ?r = "snd (integers G rng 0 10 (fst j, fst j))"
  let ?line = "''Saved '' @ filepath_of dir j"
  obtain eo w1 where t: "tofile env ?a (filepath_of dir j) w = (eo, w1)"
    by (cases "tofile env ?a (filepath_of dir j) w")
  have start: "job_loop G env dir [] rng w = (None, rng, w)" by simp
  show ?case
  proof (cases eo)
    case (Some e')
    with t Cons.prems have "e' = e" "w1 = w'" by (simp_all add: split_beta Let_def)
    with t Some have "tofile env ?a (filepath_of dir j) w = (Some e, w')" by simp
    with start have "j # js = [] @ j # js \<and> job_loop G env dir [] rng w = (None, rng, w)
        \<and> (tofile env (fst (integers G rng 0 10 (fst j, fst j))) (filepath_of dir j) w = (Some e, w')
          \<or> (\<exists>w2. tofile env (fst (integers G rng 0 10 (fst j, fst j))) (filepath_of dir j) w
                     = (None, w2)
                \<and> print env (''Saved '' @ filepath_of dir j) w2 = (Some e, w')))" by simp
    then show ?thesis by blast
  next
    case None
    obtain po w2 where p: "print env ?line w1 = (po, w2)" by (cases "print env ?line w1")
    show ?thesis
    proof (cases po)
      case (Some e')
      with t p None Cons.prems have "e' = e" "w2 = w'" by (simp_all add: split_beta Let_def)
      with t p None Some have "tofile env ?a (filepath_of dir j) w = (None, w1)
          \<and> print env ?line w1 = (Some e, w')" by simp
      with start have "j # js = [] @ j # js \<and> job_loop G env dir [] rng w = (None, rng, w)
        \<and> (tofile env (fst (integers G rng 0 10 (fst j, fst j))) (filepath_of dir j) w = (Some e, w')
          \<or> (\<exists>w2. tofile env (fst (integers G rng 0 10 (fst j, fst j))) (filepath_of dir j) w
                     = (None, w2)
                \<and> print env (''Saved '' @ filepath_of dir j) w2 = (Some e, w')))" by blast
      then show ?thesis by blast
    next
      case pn: None
      with t p None Cons.prems have l: "job_loop G env dir js ?r w2 = (Some e, rng', w')"
        by (simp add: split_beta Let_def)
      from Cons.IH[OF l] obtain js1 k js2 rng1 v1 where
        a: "js = js1 @ k # js2" "job_loop G env dir js1 ?r w2 = (None, rng1, v1)"
        "tofile env (fst (integers G rng1 0 10 (fst k, fst k))) (filepath_of dir k) v1 = (Some e, w')
          \<or> (\<exists>w2. tofile env (fst (integers G rng1 0 10 (fst k, fst k))) (filepath_of dir k) v1
                     = (None, w2)
                \<and> print env (''Saved '' @ filepath_of dir k) w2 = (Some e, w'))"
        by blast
      from a(2) t p None pn have "job_loop G env dir (j # js1) rng w = (None, rng1, v1)"
        by (simp add: split_beta Let_def)
      with a(1,3) have "j # js = (j # js1) @ k # js2
        \<and> job_loop G env dir (j # js1) rng w = (None, rng1, v1)
        \<and> (tofile env (fst (integers G rng1 0 10 (fst k, fst k))) (filepath_of dir k) v1 = (Some e, w')
          \<or> (\<exists>w2. tofile env (fst (integers G rng1 0 10 (fst k, fst k))) (filepath_of dir k) v1
                     = (None, w2)
                \<and> print env (''Saved '' @ filepath_of dir k) w2 = (Some e, w')))" by simp
      then show ?thesis by blast
    qed
  qed
qed

lemma job_loop_keeps_dirs:
  "job_loop G env dir js rng w = (None, rng', w') \<Longrightarrow> is_dir (fs w) q \<Longrightarrow> is_dir (fs w') q"
proof (induction js arbitrary: rng w)
  case Nil
  then show ?case by simp
next
  case (Cons j js)
  let ?a = "fst (integers G rng 0 10 (fst j, fst j))"
  let ?r = "snd (integers G rng 0 10 (fst j, fst j))"
  from job_loop_step[OF Cons.prems(1)] obtain w1 w2 where
    t: "tofile env ?a (filepath_of dir j) w = (None, w1)" and
    p: "print env (''Saved '' @ filepath_of dir j) w1 = (None, w2)" and
    l: "job_loop G env dir js ?r w2 = (None, rng', w')" by blast
  from tofile_ok(2)[OF t] Cons.prems(2) have "q \<noteq> resolve (filepath_of dir j)" by auto
  moreover from tofile_ok(1)[OF t] obtain k where
    "w1 = w\<lparr>fs := (fs w)(resolve (filepath_of dir j) \<mapsto> File (take k (tobytes (native env) ?a)))\<rparr>"
    by blast
  with print_ok[OF p] have
    "fs w2 = (fs w)(resolve (filepath_of dir j) \<mapsto> File (take k (tobytes (native env) ?a)))"
    by simp
  ultimately have "is_dir (fs w2) q" using Cons.prems(2) by (simp add: is_dir_def)
  from Cons.IH[OF l this] show ?case .
qed

section \<open>File names and paths\<close>

lemma filename_of_plain: "plain_label l \<Longrightarrow> CHR ''/'' \<notin> set (filename_of l n)"
  by (simp add: filename_of_def plain_label_def slash_notin_str)

lemma filename_of_long: "length (filename_of l n) > 2"
  by (simp add: filename_of_def)

lemma split_last_sep:
  assumes "x \<notin> set d" "x \<notin> set d'" "l @ x # d = l' @ x # d'"
  shows "l = l' \<and> d = d'"
  using assms
  by (induction l arbitrary: l') (auto simp add: Cons_eq_append_conv append_eq_Cons_conv)

lemma filename_of_inject:
  assumes "filename_of l m = filename_of l' n"
  shows "l = l' \<and> m = n"
proof -
  from assms have "(l @ CHR ''_'' # str m) @ ''.bin'' = (l' @ CHR ''_'' # str n) @ ''.bin''"
    by (simp add: filename_of_def)
  then have "l @ CHR ''_'' # str m = l' @ CHR ''_'' # str n"
    by (simp only: append_same_eq)
  then have "l = l' \<and> str m = str n"
    by (rule split_last_sep[OF underscore_notin_str underscore_notin_str])
  then show ?thesis by (simp add: str_inject)
qed

lemma split_path_sep:
  "split_path acc (xs @ CHR ''/'' # ys) = split_path acc xs @ split_path [] ys"
  by (induction xs arbitrary: acc) simp_all

lemma split_path_plain:
  "CHR ''/'' \<notin> set xs \<Longrightarrow>
   split_path acc xs = (if acc @ xs = [] \<or> acc @ xs = ''.'' then [] else [acc @ xs])"
proof (induction xs arbitrary: acc)
  case Nil
  then show ?case by simp
next
  case (Cons a xs)
  then have "split_path acc (a # xs) = split_path (acc @ [a]) xs" by auto
  also have "\<dots> = (if (acc @ [a]) @ xs = [] \<or> (acc @ [a]) @ xs = ''.'' then [] else [(acc @ [a]) @ xs])"
    using Cons.prems by (subst Cons.IH) simp_all
  finally show ?case by simp
qed

lemma components_join:
  assumes "CHR ''/'' \<notin> set b" "length b > 1"
  shows "components (path_join a b) = components a @ [b]"
proof -
  from assms have b: "split_path [] b = [b]" "b \<noteq> []" "hd b \<noteq> CHR ''/''"
    by (auto simp add: split_path_plain) (cases b; simp)+
  show ?thesis
  proof (cases "a = []")
    case True
    with b show ?thesis by (simp add: components_def path_join_def)
  next
    case False
    show ?thesis
    proof (cases "last a = CHR ''/''")
      case True
      with False obtain a' where a: "a = a' @ [CHR ''/'']"
        by (metis append_butlast_last_id)
      have "split_path [] (a @ b) = split_path [] a' @ [b]"
        using split_path_sep[of "[]" a' b] b a by simp
      moreover have "split_path [] a = split_path [] a'"
        using split_path_sep[of "[]" a' "[]"] a by simp
      ultimately show ?thesis using False True b
        by (simp add: components_def path_join_def)
    next
      case nl: False
      have "split_path [] (a @ CHR ''/'' # b) = split_path [] a @ [b]"
        using split_path_sep[of "[]" a b] b by simp
      then show ?thesis using False nl b
        by (simp add: components_def path_join_def)
    qed
  qed
qed

lemma components_filepath_of:
  "plain_label (snd j) \<Longrightarrow>
     components (filepath_of dir j) = components dir @ [filename_of (snd j) (fst j)]"
  using components_join[OF filename_of_plain, of "snd j" "fst j" dir] filename_of_long[of "snd j" "fst j"]
  by (simp add: filepath_of_def)

lemma filename_of_not_parent: "filename_of l n \<noteq> ''..''"
  using filename_of_long[of l n] by auto

lemma resolve_filepath_of:
  "plain_label (snd j) \<Longrightarrow> resolve (filepath_of dir j) = resolve dir @ [filename_of (snd j) (fst j)]"
  by (simp add: resolve_def components_filepath_of enter_def filename_of_not_parent)

lemma resolve_filepath_of_inject:
  assumes "plain_label (snd j)" "plain_label (snd k)"
    and "resolve (filepath_of dir j) = resolve (filepath_of dir k)"
  shows "j = k"
  using assms filename_of_inject[of "snd j" "fst j" "snd k" "fst k"]
  by (simp add: resolve_filepath_of prod_eq_iff)

lemma job_path_is_no_directory:
  assumes "plain_label (snd j)"
  shows "\<not> list_all (\<lambda>c. c = ''..'') (resolve (filepath_of dir j))"
    and "resolve (filepath_of dir j) \<noteq> [''/'']"
proof -
  have p: "resolve (filepath_of dir j) = resolve dir @ [filename_of (snd j) (fst j)]"
    using assms by (rule resolve_filepath_of)
  show "\<not> list_all (\<lambda>c. c = ''..'') (resolve (filepath_of dir j))"
    unfolding p by (simp add: filename_of_not_parent)
  have "length (filename_of (snd j) (fst j)) > 2" by (rule filename_of_long)
  then have "filename_of (snd j) (fst j) \<noteq> ''/''" by auto
  then show "resolve (filepath_of dir j) \<noteq> [''/'']"
    unfolding p by (cases "resolve dir") simp_all
qed

section \<open>Following a path\<close>

lemma walk_Inr:
  "walk f cur cs = Inr d \<longleftrightarrow> list_all (is_dir f) (visited_from cur cs) \<and> d = foldl enter cur cs"
  by (induction cs arbitrary: cur) (auto simp add: Let_def)

lemma walk_dirs_of:
  "walk f [] (components dir) = Inr d \<longleftrightarrow> list_all (is_dir f) (dirs_of dir) \<and> d = resolve dir"
  by (simp add: walk_Inr dirs_of_def resolve_def)

section \<open>Creating directories\<close>

lemma makedirs_from_frame:
  "makedirs_from env cur cs f = (e, f') \<Longrightarrow> f' p \<noteq> f p \<Longrightarrow>
     f p = None \<and> f' p = Some Dir \<and> p \<in> set (visited_from cur cs)"
proof (induction cs arbitrary: cur f)
  case Nil
  then show ?case by simp
next
  case (Cons c cs)
  let ?q = "enter cur c"
  show ?case
  proof (cases "is_dir f ?q")
    case True
    with Cons.prems have "makedirs_from env ?q cs f = (e, f')" by simp
    from Cons.IH[OF this Cons.prems(2)] show ?thesis by simp
  next
    case nd: False
    show ?thesis
    proof (cases "f ?q \<noteq> None \<or> mkdir_denied env f ?q")
      case True
      with nd Cons.prems have "f' = f" by (auto simp add: Let_def split: if_splits)
      with Cons.prems show ?thesis by simp
    next
      case False
      with nd Cons.prems have m: "makedirs_from env ?q cs (f(?q \<mapsto> Dir)) = (e, f')"
        by (simp add: Let_def)
      show ?thesis
      proof (cases "f' p = (f(?q \<mapsto> Dir)) p")
        case True
        with Cons.prems(2) False have "p = ?q" "f p = None" "f' p = Some Dir"
          by (auto split: if_splits)
        then show ?thesis by simp
      next
        case ne: False
        from Cons.IH[OF m ne] have
          a: "(f(?q \<mapsto> Dir)) p = None" "f' p = Some Dir" "p \<in> set (visited_from ?q cs)"
          by blast+
        from a(1) have "f p = None" by (simp split: if_splits)
        with a(2,3) show ?thesis by simp
      qed
    qed
  qed
qed

lemma makedirs_from_keeps_dirs:
  "makedirs_from env cur cs f = (e, f') \<Longrightarrow> is_dir f p \<Longrightarrow> is_dir f' p"
  using makedirs_from_frame[of env cur cs f e f' p]
  by (cases "f' p = f p") (auto simp add: is_dir_def)

lemma makedirs_from_ok:
  "makedirs_from env cur cs f = (None, f') \<Longrightarrow> q \<in> set (visited_from cur cs) \<Longrightarrow> is_dir f' q"
proof (induction cs arbitrary: cur f)
  case Nil
  then show ?case by simp
next
  case (Cons c cs)
  let ?q = "enter cur c"
  obtain f1 where f1: "makedirs_from env ?q cs f1 = (None, f')" and d: "is_dir f1 ?q"
  proof (cases "is_dir f ?q")
    case True
    with Cons.prems(1) that show ?thesis by simp
  next
    case False
    with Cons.prems(1) have "makedirs_from env ?q cs (f(?q \<mapsto> Dir)) = (None, f')"
      by (auto simp add: Let_def split: if_splits)
    moreover have "is_dir (f(?q \<mapsto> Dir)) ?q" by (simp add: is_dir_def)
    ultimately show ?thesis using that by blast
  qed
  from Cons.prems(2) consider "q = ?q" | "q \<in> set (visited_from ?q cs)" by auto
  then show ?case
  proof cases
    case 1
    with makedirs_from_keeps_dirs[OF f1 d] show ?thesis by simp
  next
    case 2
    from Cons.IH[OF f1 this] show ?thesis .
  qed
qed

lemma makedirs_from_noop:
  "(\<And>q. q \<in> set (visited_from cur cs) \<Longrightarrow> is_dir f q) \<Longrightarrow> makedirs_from env cur cs f = (None, f)"
  by (induction cs arbitrary: cur) simp_all

lemma makedirs_from_succeeds:
  "(\<And>q bs. q \<in> set (visited_from cur cs) \<Longrightarrow> f q \<noteq> Some (File bs)) \<Longrightarrow>
   (\<And>g p. \<not> mkdir_denied env g p) \<Longrightarrow> fst (makedirs_from env cur cs f) = None"
proof (induction cs arbitrary: cur f)
  case Nil
  then show ?case by simp
next
  case (Cons c cs)
  let ?q = "enter cur c"
  show ?case
  proof (cases "is_dir f ?q")
    case True
    have "fst (makedirs_from env ?q cs f) = None"
      by (rule Cons.IH) (use Cons.prems in auto)
    with True show ?thesis by simp
  next
    case False
    have "f ?q = None"
    proof (cases "f ?q")
      case None
      then show ?thesis .
    next
      case (Some nd)
      with False Cons.prems(1)[of ?q] show ?thesis by (cases nd) (auto simp add: is_dir_def)
    qed
    moreover have "fst (makedirs_from env ?q cs (f(?q \<mapsto> Dir))) = None"
      by (rule Cons.IH) (use Cons.prems in auto)
    ultimately show ?thesis using False Cons.prems(2) by (simp add: Let_def)
  qed
qed

section \<open>The run as a whole\<close>

lemma makedirs_stdout: "makedirs env dir w = (e, w') \<Longrightarrow> stdout w' = stdout w"
  by (auto simp add: makedirs_def Let_def split: if_splits prod.splits)

lemma makedirs_nonempty: "makedirs env dir w = (None, w') \<Longrightarrow> dir \<noteq> []"
  by (auto simp add: makedirs_def)

lemma makedirs_ok:
  assumes "makedirs env dir w = (None, w')" "q \<in> set (dirs_of dir)"
  shows "is_dir (fs w') q"
proof -
  from assms(1) have m: "makedirs_from env [] (components dir) (fs w) = (None, fs w')"
    by (auto simp add: makedirs_def Let_def split: if_splits prod.splits)
  from makedirs_from_ok[OF m] assms(2) show ?thesis by (simp add: dirs_of_def)
qed

lemma makedirs_frame:
  assumes "makedirs env dir w = (e, w')" "fs w' p \<noteq> fs w p"
  shows "fs w p = None \<and> fs w' p = Some Dir \<and> p \<in> set (dirs_of dir)"
proof -
  from assms have "dir \<noteq> []" by (auto simp add: makedirs_def)
  with assms(1) have m: "makedirs_from env [] (components dir) (fs w) = (e, fs w')"
    by (auto simp add: makedirs_def Let_def split: prod.splits)
  from makedirs_from_frame[OF m assms(2)] show ?thesis by (simp add: dirs_of_def)
qed

lemma makedirs_noop:
  assumes "dir \<noteq> []" "\<And>q. q \<in> set (dirs_of dir) \<Longrightarrow> is_dir (fs w) q"
  shows "makedirs env dir w = (None, w)"
proof -
  have "makedirs_from env [] (components dir) (fs w) = (None, fs w)"
    by (rule makedirs_from_noop) (use assms(2) in \<open>simp add: dirs_of_def\<close>)
  with assms(1) show ?thesis by (simp add: makedirs_def)
qed

lemma makedirs_succeeds:
  assumes "\<And>g p. \<not> mkdir_denied env g p"
    and "\<And>q bs. q \<in> set (dirs_of dir) \<Longrightarrow> fs w q \<noteq> Some (File bs)" and "dir \<noteq> []"
  shows "fst (makedirs env dir w) = None"
proof -
  have "fst (makedirs_from env [] (components dir) (fs w)) = None"
    by (rule makedirs_from_succeeds) (use assms in \<open>auto simp add: dirs_of_def\<close>)
  with assms(3) show ?thesis by (simp add: makedirs_def split_beta)
qed

lemma generate_unfold:
  "generate G env sizes dir seed labels w =
     (case makedirs env dir w of
        (Some e, w0) \<Rightarrow> (Some e, w0)
      | (None, w0) \<Rightarrow>
          (case default_rng G seed of
             Inl e \<Rightarrow> (Some e, w0)
           | Inr rng \<Rightarrow>
               (fst (job_loop G env dir (jobs sizes labels) rng w0),
                snd (snd (job_loop G env dir (jobs sizes labels) rng w0)))))"
  by (simp add: generate_def size_loop_flat split_beta Let_def
      split: prod.splits option.splits sum.splits)

lemma generate_ok_loop:
  assumes "generate G env sizes dir seed labels w = (None, w')"
  shows "\<exists>w0 rng r. makedirs env dir w = (None, w0) \<and> default_rng G seed = Inr rng
     \<and> job_loop G env dir (jobs sizes labels) rng w0 = (None, r, w')"
proof -
  obtain eo w0 where m: "makedirs env dir w = (eo, w0)" by (cases "makedirs env dir w")
  with assms have eo: "eo = None" by (cases eo) (simp_all add: generate_unfold)
  obtain rng where g: "default_rng G seed = Inr rng"
    using assms m eo by (cases "default_rng G seed") (simp_all add: generate_unfold)
  obtain e r v where l: "job_loop G env dir (jobs sizes labels) rng w0 = (e, r, v)"
    by (cases "job_loop G env dir (jobs sizes labels) rng w0")
  with assms m eo g have "e = None" "v = w'" by (simp_all add: generate_unfold)
  with m l eo g show ?thesis by blast
qed

lemma generate_ok:
  assumes "generate G env sizes dir seed labels w = (None, w')"
  shows "\<exists>w0 rng ks. makedirs env dir w = (None, w0) \<and> default_rng G seed = Inr rng
     \<and> length ks = length (jobs sizes labels)
     \<and> fs w' = write_all (fs w0) (cut_short ks (writes G (native env) dir rng (jobs sizes labels)))
     \<and> stdout w' = stdout w @ saved_lines dir (jobs sizes labels)
     \<and> (whole_writes env \<longrightarrow>
          cut_short ks (writes G (native env) dir rng (jobs sizes labels))
            = writes G (native env) dir rng (jobs sizes labels))"
proof -
  from generate_ok_loop[OF assms] obtain w0 rng r where
    m: "makedirs env dir w = (None, w0)" and g: "default_rng G seed = Inr rng" and
    l: "job_loop G env dir (jobs sizes labels) rng w0 = (None, r, w')" by blast
  from job_loop_ok[OF l] makedirs_stdout[OF m] m g show ?thesis by auto
qed

lemma generate_keeps_directory:
  assumes "generate G env sizes dir seed labels w = (None, w')" and "q \<in> set (dirs_of dir)"
  shows "is_dir (fs w') q"
proof -
  from generate_ok_loop[OF assms(1)] obtain w0 rng r where
    m: "makedirs env dir w = (None, w0)" and
    l: "job_loop G env dir (jobs sizes labels) rng w0 = (None, r, w')" by blast
  from job_loop_keeps_dirs[OF l makedirs_ok[OF m assms(2)]] show ?thesis .
qed

lemma set_jobs: "set (jobs sizes labels) = set sizes \<times> set labels"
  by (auto simp add: jobs_def)

section \<open>The matrices of a run\<close>

lemma length_stream: "length (stream G rng n) = n"
  by (simp add: stream_def length_draws)

lemma stream_add:
  "stream G rng (m + n) = stream G rng m @ stream G (snd (draws G 0 10 m rng)) n"
  by (simp add: stream_def draws_add)

lemma offset_Cons_0: "offset (j # js) 0 = 0"
  by (simp add: offset_def)

lemma offset_Cons_Suc: "offset (j # js) (Suc k) = fst j * fst j + offset js k"
  by (simp add: offset_def)

lemma matrices_nth:
  "k < length js \<Longrightarrow>
   matrices G rng js ! k =
     \<lparr>shape = (fst (js ! k), fst (js ! k)),
      data = take (fst (js ! k) * fst (js ! k))
               (drop (offset js k) (stream G rng (offset js (length js))))\<rparr>"
proof (induction js arbitrary: rng k)
  case Nil
  then show ?case by simp
next
  case (Cons j js)
  let ?n = "fst j * fst j"
  let ?r = "snd (draws G 0 10 ?n rng)"
  have s: "stream G rng (offset (j # js) (length (j # js)))
         = stream G rng ?n @ stream G ?r (offset js (length js))"
    by (simp add: offset_Cons_Suc stream_add)
  show ?case
  proof (cases k)
    case 0
    then show ?thesis
      unfolding s by (simp add: split_beta integers_def offset_Cons_0 length_stream stream_def length_draws)
  next
    case (Suc m)
    with Cons.prems have "m < length js" by simp
    from Cons.IH[OF this, of ?r] Suc show ?thesis
      unfolding s by (simp add: split_beta snd_integers offset_Cons_Suc length_stream)
  qed
qed

lemma matrices_shape:
  "k < length js \<Longrightarrow> shape (matrices G rng js ! k) = (fst (js ! k), fst (js ! k))"
  by (simp add: matrices_nth)

lemma matrices_length_data:
  "k < length js \<Longrightarrow> length (data (matrices G rng js ! k)) = fst (js ! k) * fst (js ! k)"
proof (induction js arbitrary: rng k)
  case Nil
  then show ?case by simp
next
  case (Cons j js)
  then show ?case
    by (cases k) (simp_all add: split_beta data_integers length_draws)
qed

lemma integers_in_range:
  assumes "in_range G" "x \<in> set (data (fst (integers G rng 0 10 sh)))"
  shows "0 \<le> sint x \<and> sint x \<le> 9"
proof -
  from assms(2) have "x \<in> set (fst (draws G 0 10 (fst sh * snd sh) rng))"
    by (simp add: data_integers)
  from draws_in_range[OF assms(1) _ this] obtain v where "x = word_of_int v" "0 \<le> v" "v < 10"
    by auto
  then show ?thesis by (simp add: sint_small)
qed

lemma matrices_in_range:
  assumes "in_range G"
  shows "a \<in> set (matrices G rng js) \<Longrightarrow> x \<in> set (data a) \<Longrightarrow> 0 \<le> sint x \<and> sint x \<le> 9"
proof (induction js arbitrary: rng)
  case Nil
  then show ?case by simp
next
  case (Cons j js)
  from Cons.prems(1) consider "a = fst (integers G rng 0 10 (fst j, fst j))"
    | "a \<in> set (matrices G (snd (integers G rng 0 10 (fst j, fst j))) js)"
    by (auto simp add: split_beta)
  then show ?case
  proof cases
    case 1
    with Cons.prems(2) integers_in_range[OF assms] show ?thesis by blast
  next
    case 2
    from Cons.IH[OF this Cons.prems(2)] show ?thesis .
  qed
qed

lemma writes_nth:
  "k < length js \<Longrightarrow>
   writes G bo dir rng js ! k = (resolve (filepath_of dir (js ! k)), tobytes bo (matrices G rng js ! k))"
  by (simp add: writes_def matrices_length)

lemma row_major_bytes:
  "k < length xs \<Longrightarrow> take 4 (drop (4 * k) (concat (map (item_bytes bo) xs))) = item_bytes bo (xs ! k)"
proof (induction xs arbitrary: k)
  case Nil
  then show ?case by simp
next
  case (Cons x xs)
  show ?case
  proof (cases k)
    case 0
    then show ?thesis by (simp add: length_item_bytes)
  next
    case (Suc m)
    with Cons.prems have "m < length xs" by simp
    from Cons.IH[OF this] Suc show ?thesis by (simp add: length_item_bytes)
  qed
qed

lemma index_in_square:
  assumes "i < n" "j < n"
  shows "i * n + j < n * (n::nat)"
proof -
  from assms(2) have "i * n + j < Suc i * n" by simp
  also from assms(1) have "\<dots> \<le> n * n" by (simp add: Suc_leI mult_le_mono1 del: mult_Suc)
  finally show ?thesis .
qed

lemma in_range_counter_random: "in_range counter_random"
proof -
  have "low \<le> low + int g mod (high - low) \<and> low + int g mod (high - low) < high"
    if "low < high" for low high :: int and g :: nat
  proof -
    from that have "0 \<le> int g mod (high - low)" "int g mod (high - low) < high - low"
      by simp_all
    then show ?thesis by linarith
  qed
  then show ?thesis by (simp add: in_range_def counter_random_def)
qed


lemma whole_writes_plain_env: "whole_writes (plain_env bo)"
  by (simp add: whole_writes_def plain_env_def)

lemma native_plain_env: "native (plain_env bo) = bo"
  by (simp add: plain_env_def)

lemma job_path_written:
  "j \<in> set js \<Longrightarrow> length ks = length js \<Longrightarrow>
     resolve (filepath_of dir j) \<in> fst ` set (cut_short ks (writes G bo dir rng js))"
proof -
  assume j: "j \<in> set js" and l: "length ks = length js"
  then have "map fst (cut_short ks (writes G bo dir rng js)) = map (\<lambda>j. resolve (filepath_of dir j)) js"
    by (simp add: map_fst_cut length_writes map_fst_writes)
  with j show ?thesis by (metis (no_types, lifting) image_eqI list.set_map)
qed

lemma written_file:
  assumes "j \<in> set js" "length ks = length js"
  shows "\<exists>a k. a \<in> set (matrices G rng js)
     \<and> write_all f (cut_short ks (writes G bo dir rng js)) (resolve (filepath_of dir j))
          = Some (File (take k (tobytes bo a)))"
proof -
  let ?p = "resolve (filepath_of dir j)"
  from write_all_mem[OF job_path_written[OF assms, of dir G bo rng], of f] obtain cs where
    cs: "(?p, cs) \<in> set (cut_short ks (writes G bo dir rng js))"
        "write_all f (cut_short ks (writes G bo dir rng js)) ?p = Some (File cs)" by blast
  from cut_mem[OF cs(1)] obtain bs k where
    bs: "(?p, bs) \<in> set (writes G bo dir rng js)" "cs = take k bs" by blast
  from bs(1) have "bs \<in> set (map (tobytes bo) (matrices G rng js))"
    unfolding writes_def by (rule set_zip_rightD)
  with cs(2) bs(2) show ?thesis by auto
qed

lemma written_file_plain:
  assumes "j \<in> set js" "\<forall>j \<in> set js. plain_label (snd j)"
  shows "\<exists>k < length js. js ! k = j
     \<and> write_all f (writes G bo dir rng js) (resolve (filepath_of dir j))
         = Some (File (tobytes bo (matrices G rng js ! k)))"
proof -
  let ?p = "resolve (filepath_of dir j)"
  let ?ws = "writes G bo dir rng js"
  from assms(1) have "?p \<in> fst ` set ?ws"
    by (metis (no_types, lifting) image_eqI list.set_map map_fst_writes)
  from write_all_mem[OF this] obtain bs where
    bs: "(?p, bs) \<in> set ?ws" "write_all f ?ws ?p = Some (File bs)" by blast
  from bs(1) obtain k where k: "k < length ?ws" "?ws ! k = (?p, bs)"
    by (auto simp add: in_set_conv_nth)
  then have kl: "k < length js" by (simp add: length_writes)
  with k(2) have e: "resolve (filepath_of dir (js ! k)) = ?p" "bs = tobytes bo (matrices G rng js ! k)"
    by (simp_all add: writes_nth)
  from kl assms have "plain_label (snd (js ! k))" "plain_label (snd j)" by auto
  from resolve_filepath_of_inject[OF this e(1)] have "js ! k = j" .
  with kl bs(2) e(2) show ?thesis by blast
qed

text \<open>
  C1. Determinism: two independent complete runs with the same generator, seed, sizes
  and labels, started in any two worlds on platforms of the same byte order that do not
  cut_short a write short, leave byte-identical contents in the file of every pair of label
  and size.
\<close>

theorem runs_are_deterministic:
  assumes "generate G env1 sizes dir seed labels w1 = (None, w1')"
    and "generate G env2 sizes dir seed labels w2 = (None, w2')"
    and "whole_writes env1" and "whole_writes env2"
    and "native env1 = native env2"
    and "size' \<in> set sizes" and "matrix_label \<in> set labels"
  shows "\<exists>bs. fs w1' (resolve (path_join dir (filename_of matrix_label size'))) = Some (File bs)
            \<and> fs w2' (resolve (path_join dir (filename_of matrix_label size'))) = Some (File bs)"
proof -
  let ?js = "jobs sizes labels"
  let ?p = "resolve (filepath_of dir (size', matrix_label))"
  from generate_ok[OF assms(1)] assms(3) obtain u1 :: world and rng where
    1: "default_rng G seed = Inr rng" "fs w1' = write_all (fs u1) (writes G (native env1) dir rng ?js)"
    by auto
  let ?ws = "writes G (native env1) dir rng ?js"
  from generate_ok[OF assms(2)] assms(4,5) 1(1) obtain u2 :: world where
    2: "fs w2' = write_all (fs u2) ?ws" by auto
  from assms(6,7) have j: "(size', matrix_label) \<in> set ?js" by (simp add: set_jobs)
  then have p: "?p \<in> fst ` set ?ws"
    by (metis (no_types, lifting) image_eqI list.set_map map_fst_writes)
  from write_all_mem[OF p] obtain bs where "write_all (fs u1) ?ws ?p = Some (File bs)" by blast
  moreover have "write_all (fs u2) ?ws ?p = write_all (fs u1) ?ws ?p"
    using p by (rule write_all_same)
  ultimately show ?thesis using 1 2 by (auto simp add: filepath_of_def)
qed

theorem runs_are_deterministic_witness:
  "fst (generate counter_random (plain_env Little) [2] ''m'' 42 [''A'', ''B''] empty_world) = None
   \<and> fst (generate counter_random (plain_env Little) [2] ''m'' 42 [''A'', ''B'']
          \<lparr>fs = [[''m''] \<mapsto> Dir, [''x''] \<mapsto> File [1]], stdout = [''old'']\<rparr>) = None
   \<and> whole_writes (plain_env Little)
   \<and> (\<exists>bs. fs (snd (generate counter_random (plain_env Little) [2] ''m'' 42 [''A'', ''B''] empty_world))
             (resolve (path_join ''m'' (filename_of ''B'' 2))) = Some (File bs)
          \<and> fs (snd (generate counter_random (plain_env Little) [2] ''m'' 42 [''A'', ''B'']
                 \<lparr>fs = [[''m''] \<mapsto> Dir, [''x''] \<mapsto> File [1]], stdout = [''old'']\<rparr>))
             (resolve (path_join ''m'' (filename_of ''B'' 2))) = Some (File bs))"
proof -
  let ?w2 = "\<lparr>fs = [[''m''] \<mapsto> Dir, [''x''] \<mapsto> File [1]], stdout = [''old'']\<rparr>"
  let ?r1 = "generate counter_random (plain_env Little) [2] ''m'' 42 [''A'', ''B''] empty_world"
  let ?r2 = "generate counter_random (plain_env Little) [2] ''m'' 42 [''A'', ''B''] ?w2"
  have 1: "fst ?r1 = None" by code_simp
  have 2: "fst ?r2 = None" by code_simp
  from 1 have a: "?r1 = (None, snd ?r1)" by (metis prod.collapse)
  from 2 have b: "?r2 = (None, snd ?r2)" by (metis prod.collapse)
  from runs_are_deterministic[OF a b whole_writes_plain_env whole_writes_plain_env, of 2 "''B''"] 1 2
  show ?thesis by (simp add: whole_writes_plain_env)
qed

text \<open>
  C2. Range: when the generator keeps the documented contract of its bounded draw,
  every element of a matrix the script draws, and every integer decoded from a file a
  complete run has written, lies in 0..9.
\<close>

theorem values_in_range:
  assumes "in_range G"
  shows "(\<forall>x \<in> set (data (fst (integers G rng 0 10 (n, n)))). 0 \<le> sint x \<and> sint x \<le> 9)
       \<and> (generate G env sizes dir seed labels w = (None, w') \<longrightarrow>
          size' \<in> set sizes \<longrightarrow> matrix_label \<in> set labels \<longrightarrow>
          (\<exists>bs. fs w' (resolve (path_join dir (filename_of matrix_label size'))) = Some (File bs)
             \<and> (\<forall>x \<in> set (frombytes (native env) bs). 0 \<le> sint x \<and> sint x \<le> 9)))"
proof (intro conjI impI)
  show "\<forall>x \<in> set (data (fst (integers G rng 0 10 (n, n)))). 0 \<le> sint x \<and> sint x \<le> 9"
    using integers_in_range[OF assms] by blast
next
  assume run: "generate G env sizes dir seed labels w = (None, w')"
    and "size' \<in> set sizes" "matrix_label \<in> set labels"
  then have j: "(size', matrix_label) \<in> set (jobs sizes labels)" by (simp add: set_jobs)
  from generate_ok[OF run] obtain u :: world and r ks where
    u: "length ks = length (jobs sizes labels)"
       "fs w' = write_all (fs u) (cut_short ks (writes G (native env) dir r (jobs sizes labels)))"
    by blast
  from written_file[OF j u(1), of G r "fs u" "native env" dir] obtain a k where
    a: "a \<in> set (matrices G r (jobs sizes labels))"
       "fs w' (resolve (filepath_of dir (size', matrix_label)))
          = Some (File (take k (tobytes (native env) a)))"
    unfolding u(2) by blast
  have "\<forall>x \<in> set (frombytes (native env) (take k (tobytes (native env) a))). 0 \<le> sint x \<and> sint x \<le> 9"
    using matrices_in_range[OF assms a(1)] frombytes_cut[of "native env" k a] by blast
  with a(2) show "\<exists>bs. fs w' (resolve (path_join dir (filename_of matrix_label size'))) = Some (File bs)
             \<and> (\<forall>x \<in> set (frombytes (native env) bs). 0 \<le> sint x \<and> sint x \<le> 9)"
    by (auto simp add: filepath_of_def)
qed

theorem values_in_range_witness:
  "in_range counter_random
   \<and> fst (generate counter_random (plain_env Little) [2] ''m'' 42 [''A'', ''B''] empty_world) = None
   \<and> (\<exists>bs. fs (snd (generate counter_random (plain_env Little) [2] ''m'' 42 [''A'', ''B''] empty_world))
             (resolve (path_join ''m'' (filename_of ''B'' 2))) = Some (File bs)
          \<and> list_all (\<lambda>x. 0 \<le> sint x \<and> sint x \<le> 9) (frombytes Little bs))"
proof -
  let ?r = "generate counter_random (plain_env Little) [2] ''m'' 42 [''A'', ''B''] empty_world"
  have 1: "fst ?r = None" by code_simp
  then have a: "?r = (None, snd ?r)" by (metis prod.collapse)
  have n: "native (plain_env Little) = Little" by (simp add: plain_env_def)
  from values_in_range[OF in_range_counter_random, of 0 0 "plain_env Little" "[2]" "''m''" 42
      "[''A'', ''B'']" empty_world "snd ?r" 2 "''B''"] a
  show ?thesis using in_range_counter_random 1 by (simp add: n list_all_iff)
qed

text \<open>
  C3. File format: after a complete run on a platform that does not cut_short a write short,
  the file of a pair of label and size holds exactly the bytes of a \<open>size \<times> size\<close> array
  of 32-bit integers, four bytes per element in the platform's byte order, element
  \<open>(i, j)\<close> at byte \<open>4 * (i * size + j)\<close>, with nothing before, between or after; its
  length is \<open>size * size * 4\<close> and reading it back gives the elements.
\<close>

theorem file_format:
  assumes "generate G env sizes dir seed labels w = (None, w')"
    and "whole_writes env"
    and "\<forall>l \<in> set labels. plain_label l"
    and "size' \<in> set sizes" and "matrix_label \<in> set labels"
  shows "\<exists>a rng. fs w' (resolve (path_join dir (filename_of matrix_label size')))
              = Some (File (tobytes (native env) a))
      \<and> default_rng G seed = Inr rng
      \<and> a \<in> set (matrices G rng (jobs sizes labels))
      \<and> shape a = (size', size') \<and> length (data a) = size' * size'
      \<and> tobytes (native env) a = concat (map (item_bytes (native env)) (data a))
      \<and> length (tobytes (native env) a) = size' * size' * 4
      \<and> frombytes (native env) (tobytes (native env) a) = data a
      \<and> (\<forall>i < size'. \<forall>j < size'.
           take 4 (drop (4 * (i * size' + j)) (tobytes (native env) a))
             = item_bytes (native env) (item a i j))"
proof -
  let ?js = "jobs sizes labels"
  let ?bo = "native env"
  from assms(4,5) have j: "(size', matrix_label) \<in> set ?js" by (simp add: set_jobs)
  from assms(3) have pl: "\<forall>j \<in> set ?js. plain_label (snd j)" by (auto simp add: set_jobs)
  from generate_ok[OF assms(1)] assms(2) obtain u :: world and rng where
    g: "default_rng G seed = Inr rng" and
    u: "fs w' = write_all (fs u) (writes G ?bo dir rng ?js)" by auto
  from written_file_plain[OF j pl, of "fs u" G ?bo dir rng] obtain k where
    k: "k < length ?js" "?js ! k = (size', matrix_label)"
       "fs w' (resolve (filepath_of dir (size', matrix_label)))
          = Some (File (tobytes ?bo (matrices G rng ?js ! k)))"
    unfolding u by blast
  let ?a = "matrices G rng ?js ! k"
  have sh: "shape ?a = (size', size')" using matrices_shape[OF k(1), of G rng] k(2) by simp
  have len: "length (data ?a) = size' * size'"
    using matrices_length_data[OF k(1), of G rng] k(2) by simp
  have mem: "?a \<in> set (matrices G rng ?js)" using k(1) by (simp add: matrices_length)
  have rm: "\<forall>i < size'. \<forall>j < size'.
           take 4 (drop (4 * (i * size' + j)) (tobytes ?bo ?a)) = item_bytes ?bo (item ?a i j)"
  proof (intro allI impI)
    fix i j assume "i < size'" "j < size'"
    then have "i * size' + j < length (data ?a)" using len by (simp add: index_in_square)
    from row_major_bytes[OF this, of ?bo] show
      "take 4 (drop (4 * (i * size' + j)) (tobytes ?bo ?a)) = item_bytes ?bo (item ?a i j)"
      by (simp add: tobytes_def item_def sh)
  qed
  have "fs w' (resolve (path_join dir (filename_of matrix_label size'))) = Some (File (tobytes ?bo ?a))
      \<and> default_rng G seed = Inr rng
      \<and> ?a \<in> set (matrices G rng ?js)
      \<and> shape ?a = (size', size') \<and> length (data ?a) = size' * size'
      \<and> tobytes ?bo ?a = concat (map (item_bytes ?bo) (data ?a))
      \<and> length (tobytes ?bo ?a) = size' * size' * 4
      \<and> frombytes ?bo (tobytes ?bo ?a) = data ?a
      \<and> (\<forall>i < size'. \<forall>j < size'.
           take 4 (drop (4 * (i * size' + j)) (tobytes ?bo ?a)) = item_bytes ?bo (item ?a i j))"
    using k(3) g sh len mem rm
    by (simp add: filepath_of_def length_tobytes frombytes_tobytes tobytes_def[symmetric])
  then show ?thesis by blast
qed

theorem file_format_witness:
  "fst (generate counter_random (plain_env Little) [2] ''m'' 42 [''A'', ''B''] empty_world) = None
   \<and> whole_writes (plain_env Little)
   \<and> list_all plain_label [''A'', ''B'']
   \<and> (\<exists>a. fs (snd (generate counter_random (plain_env Little) [2] ''m'' 42 [''A'', ''B''] empty_world))
             (resolve (path_join ''m'' (filename_of ''A'' 2))) = Some (File (tobytes Little a))
          \<and> shape a = (2, 2) \<and> length (data a) = 4 \<and> length (tobytes Little a) = 16
          \<and> frombytes Little (tobytes Little a) = data a)"
proof -
  let ?r = "generate counter_random (plain_env Little) [2] ''m'' 42 [''A'', ''B''] empty_world"
  have 1: "fst ?r = None" by code_simp
  then have a: "?r = (None, snd ?r)" by (metis prod.collapse)
  have p: "\<forall>l \<in> set [''A'', ''B'']. plain_label l" by (simp add: plain_label_def)
  have n: "native (plain_env Little) = Little" by (simp add: plain_env_def)
  from file_format[OF a whole_writes_plain_env p, of 2 "''A''"] obtain a where
    "fs (snd ?r) (resolve (path_join ''m'' (filename_of ''A'' 2))) = Some (File (tobytes Little a))"
    "shape a = (2, 2)" "length (data a) = 4" "length (tobytes Little a) = 16"
    "frombytes Little (tobytes Little a) = data a"
    unfolding n by auto
  with 1 p whole_writes_plain_env show ?thesis by (auto simp add: list_all_iff)
qed

section \<open>The order of generation\<close>

lemma writes_by_index:
  "writes G bo dir rng js =
     map (\<lambda>k. (resolve (filepath_of dir (js ! k)),
                tobytes bo \<lparr>shape = (fst (js ! k), fst (js ! k)),
                            data = take (fst (js ! k) * fst (js ! k))
                                     (drop (offset js k) (stream G rng (offset js (length js))))\<rparr>))
         [0..<length js]"
  by (rule nth_equalityI) (simp_all add: length_writes writes_nth matrices_nth)

lemma jobs_comprehension: "jobs sizes labels = [(s, l). s \<leftarrow> sizes, l \<leftarrow> labels]"
  by (simp add: jobs_def)

lemma saved_lines_comprehension:
  "saved_lines dir (jobs sizes labels)
     = [''Saved '' @ path_join dir (filename_of l s). s \<leftarrow> sizes, l \<leftarrow> labels]"
  by (simp add: saved_lines_def jobs_def filepath_of_def map_concat comp_def)

lemma length_jobs: "length (jobs sizes labels) = length sizes * length labels"
  by (induction sizes) (simp_all add: jobs_def)

text \<open>
  C4. Order: a complete run visits the sizes in the configured order and, for each, the
  labels in their order, and prints exactly one line \<open>Saved <filepath>\<close> per file, in
  that order. The \<open>k\<close>-th file written holds the \<open>k\<close>-th block of the one stream of
  draws: the whole block on a platform that does not cut a write short, its first bytes
  otherwise.
\<close>

theorem generation_order:
  assumes "generate G env sizes dir seed labels w = (None, w')"
  shows "jobs sizes labels = [(s, l). s \<leftarrow> sizes, l \<leftarrow> labels]
       \<and> stdout w' = stdout w
           @ [''Saved '' @ path_join dir (filename_of l s). s \<leftarrow> sizes, l \<leftarrow> labels]
       \<and> length (stdout w') = length (stdout w) + length sizes * length labels
       \<and> (\<exists>w0 rng ks. makedirs env dir w = (None, w0) \<and> default_rng G seed = Inr rng
            \<and> length ks = length (jobs sizes labels)
            \<and> (let files =
                      map (\<lambda>k. (resolve (filepath_of dir (jobs sizes labels ! k)),
                                 tobytes (native env)
                                   \<lparr>shape = (fst (jobs sizes labels ! k), fst (jobs sizes labels ! k)),
                                    data = take (fst (jobs sizes labels ! k) * fst (jobs sizes labels ! k))
                                             (drop (offset (jobs sizes labels) k)
                                                (stream G rng
                                                   (offset (jobs sizes labels)
                                                      (length (jobs sizes labels)))))\<rparr>))
                          [0..<length (jobs sizes labels)]
                in fs w' = write_all (fs w0) (cut_short ks files)
                 \<and> (whole_writes env \<longrightarrow> fs w' = write_all (fs w0) files)))"
proof -
  from generate_ok[OF assms] obtain w0 rng ks where
    m: "makedirs env dir w = (None, w0)" and g: "default_rng G seed = Inr rng" and
    k: "length ks = length (jobs sizes labels)" and
    f: "fs w' = write_all (fs w0) (cut_short ks (writes G (native env) dir rng (jobs sizes labels)))" and
    s: "stdout w' = stdout w @ saved_lines dir (jobs sizes labels)" and
    c: "whole_writes env \<longrightarrow>
          cut_short ks (writes G (native env) dir rng (jobs sizes labels))
            = writes G (native env) dir rng (jobs sizes labels)" by blast
  have l: "length (saved_lines dir (jobs sizes labels)) = length sizes * length labels"
    by (simp add: saved_lines_def length_jobs)
  have 1: "stdout w' = stdout w
           @ [''Saved '' @ path_join dir (filename_of l s). s \<leftarrow> sizes, l \<leftarrow> labels]"
    unfolding s saved_lines_comprehension ..
  have 2: "length (stdout w') = length (stdout w) + length sizes * length labels"
    unfolding s using l by simp
  from f c have "fs w' = write_all (fs w0) (cut_short ks (writes G (native env) dir rng (jobs sizes labels)))
       \<and> (whole_writes env \<longrightarrow> fs w' = write_all (fs w0) (writes G (native env) dir rng (jobs sizes labels)))"
    by auto
  with m g k have 3: "\<exists>w0 rng ks. makedirs env dir w = (None, w0) \<and> default_rng G seed = Inr rng
            \<and> length ks = length (jobs sizes labels)
            \<and> (let files =
                      map (\<lambda>k. (resolve (filepath_of dir (jobs sizes labels ! k)),
                                 tobytes (native env)
                                   \<lparr>shape = (fst (jobs sizes labels ! k), fst (jobs sizes labels ! k)),
                                    data = take (fst (jobs sizes labels ! k) * fst (jobs sizes labels ! k))
                                             (drop (offset (jobs sizes labels) k)
                                                (stream G rng
                                                   (offset (jobs sizes labels)
                                                      (length (jobs sizes labels)))))\<rparr>))
                          [0..<length (jobs sizes labels)]
                in fs w' = write_all (fs w0) (cut_short ks files)
                 \<and> (whole_writes env \<longrightarrow> fs w' = write_all (fs w0) files))"
    unfolding writes_by_index[symmetric] Let_def by blast
  from jobs_comprehension 1 2 3 show ?thesis by blast
qed

theorem generation_order_witness:
  "fst (generate counter_random (plain_env Little) [1, 2] ''m'' 42 [''A'', ''B''] empty_world) = None
   \<and> stdout (snd (generate counter_random (plain_env Little) [1, 2] ''m'' 42 [''A'', ''B''] empty_world))
       = [''Saved m/A_1.bin'', ''Saved m/B_1.bin'', ''Saved m/A_2.bin'', ''Saved m/B_2.bin'']"
proof -
  let ?r = "generate counter_random (plain_env Little) [1, 2] ''m'' 42 [''A'', ''B''] empty_world"
  have 1: "fst ?r = None" by code_simp
  then have a: "?r = (None, snd ?r)" by (metis prod.collapse)
  have "stdout (snd ?r) = stdout empty_world
      @ [''Saved '' @ path_join ''m'' (filename_of l s). s \<leftarrow> [1, 2], l \<leftarrow> [''A'', ''B'']]"
    using generation_order[OF a] by blast
  also have "\<dots> = [''Saved m/A_1.bin'', ''Saved m/B_1.bin'', ''Saved m/A_2.bin'', ''Saved m/B_2.bin'']"
    by (simp add: empty_world_def path_join_def filename_of_def str.simps digit_def)
  finally show ?thesis using 1 by simp
qed

section \<open>A run that nothing hinders\<close>

lemma tofile_succeeds:
  assumes "write_fault env (fs w) (resolve (filepath_of dir j)) (tobytes (native env) a) = None"
    and "list_all (is_dir (fs w)) (dirs_of dir)" and "plain_label (snd j)"
    and "fs w (resolve (filepath_of dir j)) \<noteq> Some Dir"
  shows "tofile env a (filepath_of dir j) w
     = (None, w\<lparr>fs := (fs w)(resolve (filepath_of dir j) \<mapsto> File (tobytes (native env) a))\<rparr>)"
proof -
  let ?cs = "components (filepath_of dir j)"
  have cs: "?cs = components dir @ [filename_of (snd j) (fst j)]"
    using assms(3) by (rule components_filepath_of)
  then have "butlast ?cs = components dir" "?cs \<noteq> []" "last ?cs \<noteq> ''..''"
    by (simp_all add: filename_of_not_parent)
  moreover have "walk (fs w) [] (components dir) = Inr (resolve dir)"
    using assms(2) by (simp add: walk_dirs_of)
  moreover have "\<not> is_dir (fs w) (resolve (filepath_of dir j))"
    using job_path_is_no_directory[OF assms(3), of dir] assms(4) by (simp add: is_dir_def)
  ultimately show ?thesis using assms(1) by (simp add: tofile_def Let_def)
qed

lemma job_loop_succeeds:
  assumes "\<And>f p bs. write_fault env f p bs = None" "\<And>out line. \<not> console_fault env out line"
  shows "list_all (is_dir (fs w)) (dirs_of dir) \<Longrightarrow> \<forall>j \<in> set js. plain_label (snd j) \<Longrightarrow>
     \<forall>j \<in> set js. fs w (resolve (filepath_of dir j)) \<noteq> Some Dir
                  \<and> resolve (filepath_of dir j) \<notin> set (dirs_of dir) \<Longrightarrow>
     fst (job_loop G env dir js rng w) = None"
proof (induction js arbitrary: rng w)
  case Nil
  then show ?case by simp
next
  case (Cons j js)
  let ?p = "resolve (filepath_of dir j)"
  let ?a = "fst (integers G rng 0 10 (fst j, fst j))"
  let ?r = "snd (integers G rng 0 10 (fst j, fst j))"
  let ?w1 = "w\<lparr>fs := (fs w)(?p \<mapsto> File (tobytes (native env) ?a))\<rparr>"
  let ?line = "''Saved '' @ filepath_of dir j"
  let ?w2 = "?w1\<lparr>stdout := stdout ?w1 @ [?line]\<rparr>"
  from Cons.prems(2,3) have pl: "plain_label (snd j)" and nd: "fs w ?p \<noteq> Some Dir"
    and np: "?p \<notin> set (dirs_of dir)" by simp_all
  have t: "tofile env ?a (filepath_of dir j) w = (None, ?w1)"
    using assms(1) Cons.prems(1) pl nd by (rule tofile_succeeds)
  have p: "print env ?line ?w1 = (None, ?w2)" using assms(2) by (simp add: print_def)
  have f2: "fs ?w2 = (fs w)(?p \<mapsto> File (tobytes (native env) ?a))" by simp
  have 1: "list_all (is_dir (fs ?w2)) (dirs_of dir)"
    using Cons.prems(1) np unfolding f2 by (auto simp add: list_all_iff is_dir_def)
  have 2: "\<forall>j \<in> set js. plain_label (snd j)" using Cons.prems(2) by simp
  have 3: "\<forall>k \<in> set js. fs ?w2 (resolve (filepath_of dir k)) \<noteq> Some Dir
                  \<and> resolve (filepath_of dir k) \<notin> set (dirs_of dir)"
    using Cons.prems(3) unfolding f2 by simp
  from Cons.IH[OF 1 2 3] t p show ?case by (simp add: split_beta Let_def)
qed

lemma generate_succeeds:
  assumes "\<And>g p. \<not> mkdir_denied env g p" "\<And>f p bs. write_fault env f p bs = None"
    and "\<And>out line. \<not> console_fault env out line"
    and "default_rng G seed = Inr rng" and "dir \<noteq> []" and "\<forall>l \<in> set labels. plain_label l"
    and "\<And>q bs. q \<in> set (dirs_of dir) \<Longrightarrow> fs w q \<noteq> Some (File bs)"
    and "\<forall>j \<in> set (jobs sizes labels). fs w (resolve (filepath_of dir j)) \<noteq> Some Dir
                  \<and> resolve (filepath_of dir j) \<notin> set (dirs_of dir)"
  shows "fst (generate G env sizes dir seed labels w) = None"
proof -
  from makedirs_succeeds[OF assms(1) assms(7) assms(5)] obtain w0 where
    m: "makedirs env dir w = (None, w0)" by (metis prod.collapse)
  let ?js = "jobs sizes labels"
  have pl: "\<forall>j \<in> set ?js. plain_label (snd j)" using assms(6) by (auto simp add: set_jobs)
  have d: "list_all (is_dir (fs w0)) (dirs_of dir)"
    using makedirs_ok[OF m] by (simp add: list_all_iff)
  have nd: "\<forall>j \<in> set ?js. fs w0 (resolve (filepath_of dir j)) \<noteq> Some Dir
                  \<and> resolve (filepath_of dir j) \<notin> set (dirs_of dir)"
  proof
    fix j assume j: "j \<in> set ?js"
    with assms(8) have a: "fs w (resolve (filepath_of dir j)) \<noteq> Some Dir"
      "resolve (filepath_of dir j) \<notin> set (dirs_of dir)" by auto
    from a(2) makedirs_frame[OF m, of "resolve (filepath_of dir j)"]
    have "fs w0 (resolve (filepath_of dir j)) = fs w (resolve (filepath_of dir j))" by blast
    with a show "fs w0 (resolve (filepath_of dir j)) \<noteq> Some Dir
                  \<and> resolve (filepath_of dir j) \<notin> set (dirs_of dir)" by simp
  qed
  from job_loop_succeeds[OF assms(2,3) d pl nd, of G rng] m assms(4)
  show ?thesis by (simp add: generate_unfold)
qed

section \<open>The script's own configuration\<close>

lemma main_paths:
  "map (\<lambda>j. resolve (filepath_of OUTPUT_DIR j)) (jobs MATRIX_SIZES [''A'', ''B'']) = expected_files"
  by code_simp

lemma main_lines: "saved_lines OUTPUT_DIR (jobs MATRIX_SIZES [''A'', ''B'']) = expected_lines"
  by code_simp

lemma dirs_of_output_dir: "dirs_of OUTPUT_DIR = [[''matrices'']]"
  by code_simp

lemma distinct_expected_files: "distinct expected_files"
  by code_simp

text \<open>
  C5. With the configuration compiled into the script, a complete run writes exactly ten
  files, \<^verbatim>\<open>A_64.bin\<close>, \<^verbatim>\<open>B_64.bin\<close>, up to \<^verbatim>\<open>B_1024.bin\<close>, all in the directory
  \<^verbatim>\<open>matrices\<close>: these ten paths hold files, the directory exists, and nothing else in
  the file system has changed.
\<close>

theorem main_writes_ten_files:
  assumes "main G env w = (None, w')"
  shows "length expected_files = 10 \<and> distinct expected_files
       \<and> (\<forall>p \<in> set expected_files. \<exists>bs. fs w' p = Some (File bs))
       \<and> is_dir (fs w') [''matrices'']
       \<and> (\<forall>p. p \<notin> set expected_files \<longrightarrow> p \<noteq> [''matrices''] \<longrightarrow> fs w' p = fs w p)
       \<and> stdout w' = stdout w @ expected_lines"
proof -
  let ?js = "jobs MATRIX_SIZES [''A'', ''B'']"
  from assms have "generate G env MATRIX_SIZES OUTPUT_DIR SEED [''A'', ''B''] w = (None, w')"
    by (simp add: main_def)
  from generate_ok[OF this] obtain w0 rng ks where
    m: "makedirs env OUTPUT_DIR w = (None, w0)" and
    k: "length ks = length ?js" and
    f: "fs w' = write_all (fs w0) (cut_short ks (writes G (native env) OUTPUT_DIR rng ?js))" and
    s: "stdout w' = stdout w @ saved_lines OUTPUT_DIR ?js" by blast
  let ?ws = "cut_short ks (writes G (native env) OUTPUT_DIR rng ?js)"
  have "map fst ?ws = expected_files"
    using k main_paths by (simp add: map_fst_cut length_writes map_fst_writes)
  then have paths: "fst ` set ?ws = set expected_files" by (metis list.set_map)
  have 1: "\<forall>p \<in> set expected_files. \<exists>bs. fs w' p = Some (File bs)"
    unfolding f using write_all_mem[of _ ?ws "fs w0"] paths by blast
  have dir: "[''matrices''] \<notin> set expected_files" by (simp add: expected_files_def)
  have "is_dir (fs w0) [''matrices'']"
    using makedirs_ok[OF m, of "[''matrices'']"] by (simp add: dirs_of_output_dir)
  then have 2: "is_dir (fs w') [''matrices'']"
    unfolding f using dir paths by (simp add: write_all_other is_dir_def)
  have 3: "\<forall>p. p \<notin> set expected_files \<longrightarrow> p \<noteq> [''matrices''] \<longrightarrow> fs w' p = fs w p"
  proof (intro allI impI)
    fix p assume "p \<notin> set expected_files" "p \<noteq> [''matrices'']"
    then have "fs w' p = fs w0 p" unfolding f using paths by (simp add: write_all_other)
    moreover have "fs w0 p = fs w p"
      using makedirs_frame[OF m, of p] \<open>p \<noteq> [''matrices'']\<close> by (auto simp add: dirs_of_output_dir)
    ultimately show "fs w' p = fs w p" by simp
  qed
  have 4: "stdout w' = stdout w @ expected_lines" unfolding s main_lines ..
  have "length expected_files = 10" by (simp add: expected_files_def)
  with distinct_expected_files 1 2 3 4 show ?thesis by blast
qed

theorem main_writes_ten_files_witness:
  "fst (main counter_random (plain_env Little) empty_world) = None
   \<and> stdout (snd (main counter_random (plain_env Little) empty_world)) = expected_lines
   \<and> is_dir (fs (snd (main counter_random (plain_env Little) empty_world))) [''matrices'']
   \<and> (\<exists>bs. fs (snd (main counter_random (plain_env Little) empty_world)) [''matrices'', ''B_1024.bin'']
            = Some (File bs))
   \<and> fs (snd (main counter_random (plain_env Little) empty_world)) [''matrices'', ''C_64.bin''] = None"
proof -
  let ?r = "main counter_random (plain_env Little) empty_world"
  have paths: "\<forall>j \<in> set (jobs MATRIX_SIZES [''A'', ''B'']).
      resolve (filepath_of OUTPUT_DIR j) \<in> set expected_files"
    using main_paths by (metis (no_types, lifting) image_eqI list.set_map)
  have "[''matrices''] \<notin> set expected_files" by (simp add: expected_files_def)
  with paths have np: "\<forall>j \<in> set (jobs MATRIX_SIZES [''A'', ''B'']).
      fs empty_world (resolve (filepath_of OUTPUT_DIR j)) \<noteq> Some Dir
      \<and> resolve (filepath_of OUTPUT_DIR j) \<notin> set (dirs_of OUTPUT_DIR)"
    by (auto simp add: dirs_of_output_dir empty_world_def)
  have 1: "fst ?r = None"
    unfolding main_def
    by (rule generate_succeeds[where rng = 42])
       (simp_all add: plain_env_def empty_world_def OUTPUT_DIR_def SEED_def plain_label_def
          counter_random_def np[unfolded empty_world_def OUTPUT_DIR_def])
  then have a: "?r = (None, snd ?r)" by (metis prod.collapse)
  have b: "[''matrices'', ''B_1024.bin''] \<in> set expected_files"
    "[''matrices'', ''C_64.bin''] \<notin> set expected_files"
    by (simp_all add: expected_files_def)
  from main_writes_ten_files[OF a] 1 b show ?thesis
    by (auto simp add: empty_world_def)
qed

section \<open>Exceptions\<close>

lemma job_loop_fails_at:
  assumes "job_loop G env dir js1 rng w = (None, rng1, w1)"
    and "tofile env (fst (integers G rng1 0 10 (fst j, fst j))) (filepath_of dir j) w1 = (Some e, w')"
  shows "job_loop G env dir (js1 @ j # js2) rng w
           = (Some e, snd (integers G rng1 0 10 (fst j, fst j)), w')"
  using assms by (simp add: job_loop_append split_beta Let_def)

lemma job_loop_fails_at_print:
  assumes "job_loop G env dir js1 rng w = (None, rng1, w1)"
    and "tofile env (fst (integers G rng1 0 10 (fst j, fst j))) (filepath_of dir j) w1 = (None, w2)"
    and "print env (''Saved '' @ filepath_of dir j) w2 = (Some e, w')"
  shows "job_loop G env dir (js1 @ j # js2) rng w
           = (Some e, snd (integers G rng1 0 10 (fst j, fst j)), w')"
  using assms by (simp add: job_loop_append split_beta Let_def)

lemma job_loop_stdout:
  assumes "job_loop G env dir js rng w = (None, rng', w')"
  shows "stdout w' = stdout w @ saved_lines dir js"
  using job_loop_ok[OF assms] by blast

text \<open>
  C6, as the script behaves. An exception raised by \<open>makedirs\<close>, by \<open>default_rng\<close>, by
  \<open>tofile\<close> or by \<open>print\<close> is the result of the run, and nothing runs after it. When
  the directory could not be created, no file was written and nothing printed. When a
  write raised, the console holds the lines of the completed jobs only and every path but
  the one being written is as the completed jobs left it; when a \<open>print\<close> raised, the
  file of that job is written and its line is missing.
\<close>

theorem exceptions_abort_the_run:
  "(makedirs env dir w = (Some e, w0) \<longrightarrow>
      generate G env sizes dir seed labels w = (Some e, w0)
      \<and> stdout w0 = stdout w \<and> (\<forall>p. fs w0 p \<noteq> fs w p \<longrightarrow> fs w p = None \<and> fs w0 p = Some Dir))
   \<and> (makedirs env dir w = (None, w0) \<and> default_rng G seed = Inl e \<longrightarrow>
        generate G env sizes dir seed labels w = (Some e, w0))
   \<and> (makedirs env dir w = (None, w0) \<and> default_rng G seed = Inr rng
        \<and> jobs sizes labels = js1 @ j # js2
        \<and> job_loop G env dir js1 rng w0 = (None, rng1, w1)
        \<and> tofile env (fst (integers G rng1 0 10 (fst j, fst j))) (filepath_of dir j) w1
             = (Some e, w')
        \<longrightarrow> generate G env sizes dir seed labels w = (Some e, w')
          \<and> stdout w' = stdout w @ saved_lines dir js1
          \<and> (\<forall>p. p \<noteq> resolve (filepath_of dir j) \<longrightarrow> fs w' p = fs w1 p))
   \<and> (makedirs env dir w = (None, w0) \<and> default_rng G seed = Inr rng
        \<and> jobs sizes labels = js1 @ j # js2
        \<and> job_loop G env dir js1 rng w0 = (None, rng1, w1)
        \<and> tofile env (fst (integers G rng1 0 10 (fst j, fst j))) (filepath_of dir j) w1
             = (None, w2)
        \<and> print env (''Saved '' @ filepath_of dir j) w2 = (Some e, w')
        \<longrightarrow> generate G env sizes dir seed labels w = (Some e, w')
          \<and> stdout w' = stdout w @ saved_lines dir js1
          \<and> fs w' = fs w2)"
proof (intro conjI impI)
  assume m: "makedirs env dir w = (Some e, w0)"
  then show "generate G env sizes dir seed labels w = (Some e, w0)"
    by (simp add: generate_unfold)
  show "stdout w0 = stdout w" using m by (rule makedirs_stdout)
  show "\<forall>p. fs w0 p \<noteq> fs w p \<longrightarrow> fs w p = None \<and> fs w0 p = Some Dir"
    using makedirs_frame[OF m] by blast
next
  assume "makedirs env dir w = (None, w0) \<and> default_rng G seed = Inl e"
  then show "generate G env sizes dir seed labels w = (Some e, w0)"
    by (simp add: generate_unfold)
next
  assume a: "makedirs env dir w = (None, w0) \<and> default_rng G seed = Inr rng
        \<and> jobs sizes labels = js1 @ j # js2
        \<and> job_loop G env dir js1 rng w0 = (None, rng1, w1)
        \<and> tofile env (fst (integers G rng1 0 10 (fst j, fst j))) (filepath_of dir j) w1
             = (Some e, w')"
  then have m: "makedirs env dir w = (None, w0)" and g: "default_rng G seed = Inr rng"
    and js: "jobs sizes labels = js1 @ j # js2"
    and ok: "job_loop G env dir js1 rng w0 = (None, rng1, w1)"
    and t: "tofile env (fst (integers G rng1 0 10 (fst j, fst j))) (filepath_of dir j) w1 = (Some e, w')"
    by simp_all
  from job_loop_fails_at[OF ok t, of js2] m g js
  show "generate G env sizes dir seed labels w = (Some e, w')"
    by (simp add: generate_unfold)
  from job_loop_stdout[OF ok] makedirs_stdout[OF m] tofile_fail(1)[OF t]
  show "stdout w' = stdout w @ saved_lines dir js1" by simp
  from tofile_fail(2)[OF t]
  show "\<forall>p. p \<noteq> resolve (filepath_of dir j) \<longrightarrow> fs w' p = fs w1 p" by blast
next
  assume a: "makedirs env dir w = (None, w0) \<and> default_rng G seed = Inr rng
        \<and> jobs sizes labels = js1 @ j # js2
        \<and> job_loop G env dir js1 rng w0 = (None, rng1, w1)
        \<and> tofile env (fst (integers G rng1 0 10 (fst j, fst j))) (filepath_of dir j) w1
             = (None, w2)
        \<and> print env (''Saved '' @ filepath_of dir j) w2 = (Some e, w')"
  then have m: "makedirs env dir w = (None, w0)" and g: "default_rng G seed = Inr rng"
    and js: "jobs sizes labels = js1 @ j # js2"
    and ok: "job_loop G env dir js1 rng w0 = (None, rng1, w1)"
    and t: "tofile env (fst (integers G rng1 0 10 (fst j, fst j))) (filepath_of dir j) w1 = (None, w2)"
    and p: "print env (''Saved '' @ filepath_of dir j) w2 = (Some e, w')"
    by simp_all
  from job_loop_fails_at_print[OF ok t p, of js2] m g js
  show "generate G env sizes dir seed labels w = (Some e, w')"
    by (simp add: generate_unfold)
  from print_fail[OF p] have w': "w' = w2" by simp
  from tofile_ok(1)[OF t] obtain k where
    "w2 = w1\<lparr>fs := (fs w1)(resolve (filepath_of dir j) \<mapsto>
              File (take k (tobytes (native env) (fst (integers G rng1 0 10 (fst j, fst j))))))\<rparr>"
    by blast
  then have "stdout w2 = stdout w1" by simp
  with job_loop_stdout[OF ok] makedirs_stdout[OF m] w'
  show "stdout w' = stdout w @ saved_lines dir js1" by simp
  from w' show "fs w' = fs w2" by simp
qed

theorem exceptions_abort_the_run_witness:
  "fst (generate counter_random
          \<lparr>native = Little, mkdir_denied = (\<lambda>f p. False),
           write_fault = (\<lambda>f p bs. if p = [''m'', ''B_1.bin''] then Some (Truncated 2) else None),
           console_fault = (\<lambda>out line. False)\<rparr>
          [1, 2] ''m'' 42 [''A'', ''B''] empty_world) = Some OSError
   \<and> stdout (snd (generate counter_random
          \<lparr>native = Little, mkdir_denied = (\<lambda>f p. False),
           write_fault = (\<lambda>f p bs. if p = [''m'', ''B_1.bin''] then Some (Truncated 2) else None),
           console_fault = (\<lambda>out line. False)\<rparr>
          [1, 2] ''m'' 42 [''A'', ''B''] empty_world)) = [''Saved m/A_1.bin'']
   \<and> fs (snd (generate counter_random
          \<lparr>native = Little, mkdir_denied = (\<lambda>f p. False),
           write_fault = (\<lambda>f p bs. if p = [''m'', ''B_1.bin''] then Some (Truncated 2) else None),
           console_fault = (\<lambda>out line. False)\<rparr>
          [1, 2] ''m'' 42 [''A'', ''B''] empty_world)) [''m'', ''A_1.bin''] = Some (File [2, 0, 0, 0])
   \<and> fs (snd (generate counter_random
          \<lparr>native = Little, mkdir_denied = (\<lambda>f p. False),
           write_fault = (\<lambda>f p bs. if p = [''m'', ''B_1.bin''] then Some (Truncated 2) else None),
           console_fault = (\<lambda>out line. False)\<rparr>
          [1, 2] ''m'' 42 [''A'', ''B''] empty_world)) [''m'', ''A_2.bin''] = None"
proof -
  let ?env = "\<lparr>native = Little, mkdir_denied = (\<lambda>f p. False),
           write_fault = (\<lambda>f p bs. if p = [''m'', ''B_1.bin''] then Some (Truncated 2) else None),
           console_fault = (\<lambda>out line. False)\<rparr>"
  let ?G = counter_random
  let ?w0 = "snd (makedirs ?env ''m'' empty_world)"
  let ?l1 = "job_loop ?G ?env ''m'' [(1, ''A'')] 42 ?w0"
  let ?rng1 = "fst (snd ?l1)"
  let ?w1 = "snd (snd ?l1)"
  let ?t = "tofile ?env (fst (integers ?G ?rng1 0 10 (fst (1::nat, ''B''), fst (1::nat, ''B''))))
              (filepath_of ''m'' (1, ''B'')) ?w1"
  have m: "makedirs ?env ''m'' empty_world = (None, ?w0)"
    by (rule prod_eqI) (code_simp, simp)
  have g: "default_rng ?G 42 = Inr 42" by (simp add: counter_random_def)
  have js: "jobs [1, 2] [''A'', ''B''] = [(1, ''A'')] @ (1, ''B'') # [(2, ''A''), (2, ''B'')]"
    by (simp add: jobs_def)
  have "fst ?l1 = None" by code_simp
  then have ok: "?l1 = (None, ?rng1, ?w1)" by (metis prod.collapse)
  have "fst ?t = Some OSError" by code_simp
  then have t: "?t = (Some OSError, snd ?t)" by (metis prod.collapse)
  from m g js ok t
    exceptions_abort_the_run[of ?env "''m''" empty_world OSError ?w0 ?G "[1, 2]" 42 "[''A'', ''B'']"
      42 "[(1, ''A'')]" "(1, ''B'')" "[(2, ''A''), (2, ''B'')]" ?rng1 ?w1 "snd ?t"]
  have gen: "generate ?G ?env [1, 2] ''m'' 42 [''A'', ''B''] empty_world = (Some OSError, snd ?t)"
    by blast
  have "stdout (snd ?t) = [''Saved m/A_1.bin'']" by code_simp
  moreover have "fs (snd ?t) [''m'', ''A_1.bin''] = Some (File [2, 0, 0, 0])" by code_simp
  moreover have "fs (snd ?t) [''m'', ''A_2.bin''] = None" by code_simp
  ultimately show ?thesis unfolding gen by simp
qed

text \<open>
  What the claim says of every failed write does not hold of a write that is cut short
  without an exception: the run below completes and prints all four lines, while the
  second file holds two of its four bytes. And a console that cannot be written ends a
  run whose directory and files are all in place.
\<close>

theorem silent_short_write_counterexample:
  "fst (generate counter_random
          \<lparr>native = Little, mkdir_denied = (\<lambda>f p. False),
           write_fault = (\<lambda>f p bs. if p = [''m'', ''B_1.bin''] then Some (Silent 2) else None),
           console_fault = (\<lambda>out line. False)\<rparr>
          [1, 2] ''m'' 42 [''A'', ''B''] empty_world) = None
   \<and> stdout (snd (generate counter_random
          \<lparr>native = Little, mkdir_denied = (\<lambda>f p. False),
           write_fault = (\<lambda>f p bs. if p = [''m'', ''B_1.bin''] then Some (Silent 2) else None),
           console_fault = (\<lambda>out line. False)\<rparr>
          [1, 2] ''m'' 42 [''A'', ''B''] empty_world))
       = [''Saved m/A_1.bin'', ''Saved m/B_1.bin'', ''Saved m/A_2.bin'', ''Saved m/B_2.bin'']
   \<and> fs (snd (generate counter_random
          \<lparr>native = Little, mkdir_denied = (\<lambda>f p. False),
           write_fault = (\<lambda>f p bs. if p = [''m'', ''B_1.bin''] then Some (Silent 2) else None),
           console_fault = (\<lambda>out line. False)\<rparr>
          [1, 2] ''m'' 42 [''A'', ''B''] empty_world)) [''m'', ''B_1.bin''] = Some (File [3, 0])
   \<and> fs (snd (generate counter_random (plain_env Little) [1, 2] ''m'' 42 [''A'', ''B''] empty_world))
        [''m'', ''B_1.bin''] = Some (File [3, 0, 0, 0])
   \<and> fst (generate counter_random
          \<lparr>native = Little, mkdir_denied = (\<lambda>f p. False), write_fault = (\<lambda>f p bs. None),
           console_fault = (\<lambda>out line. line = ''Saved m/B_2.bin'')\<rparr>
          [1, 2] ''m'' 42 [''A'', ''B''] empty_world) = Some OSError
   \<and> fs (snd (generate counter_random
          \<lparr>native = Little, mkdir_denied = (\<lambda>f p. False), write_fault = (\<lambda>f p bs. None),
           console_fault = (\<lambda>out line. line = ''Saved m/B_2.bin'')\<rparr>
          [1, 2] ''m'' 42 [''A'', ''B''] empty_world)) [''m'', ''B_2.bin'']
       = Some (File [8, 0, 0, 0, 9, 0, 0, 0, 0, 0, 0, 0, 1, 0, 0, 0])"
  by code_simp

section \<open>The directory and the files in it\<close>





text \<open>
  C8. Running twice: a second complete run with the same configuration, started in the
  world the first one left, on platforms that do not cut a write short, leaves the whole
  file system as the first run left it: the same entries with the same content.
\<close>

theorem second_run_changes_nothing:
  assumes "generate G env1 sizes dir seed labels w = (None, w1)"
    and "generate G env2 sizes dir seed labels w1 = (None, w2)"
    and "whole_writes env1" and "whole_writes env2"
    and "native env2 = native env1"
  shows "fs w2 = fs w1"
proof -
  let ?js = "jobs sizes labels"
  from generate_ok[OF assms(1)] assms(3) obtain w0 rng where
    m1: "makedirs env1 dir w = (None, w0)" and g: "default_rng G seed = Inr rng" and
    f1: "fs w1 = write_all (fs w0) (writes G (native env1) dir rng ?js)" by auto
  let ?ws = "writes G (native env1) dir rng ?js"
  from generate_ok[OF assms(2)] assms(4,5) g obtain v0 where
    m2: "makedirs env2 dir w1 = (None, v0)" and f2: "fs w2 = write_all (fs v0) ?ws" by auto
  have "makedirs env2 dir w1 = (None, w1)"
    using makedirs_nonempty[OF m1] generate_keeps_directory[OF assms(1)]
    by (rule makedirs_noop)
  with m2 have "v0 = w1" by simp
  with f2 have "fs w2 = write_all (fs w1) ?ws" by simp
  also have "\<dots> = write_all (write_all (fs w0) ?ws) ?ws" by (simp only: f1)
  also have "\<dots> = write_all (fs w0) ?ws" by (rule write_all_idem)
  also have "\<dots> = fs w1" by (simp only: f1)
  finally show ?thesis .
qed

theorem second_run_changes_nothing_witness:
  "fst (generate counter_random (plain_env Little) [1, 2] ''m'' 42 [''A'', ''B''] empty_world) = None
   \<and> fst (generate counter_random (plain_env Little) [1, 2] ''m'' 42 [''A'', ''B'']
           (snd (generate counter_random (plain_env Little) [1, 2] ''m'' 42 [''A'', ''B''] empty_world)))
       = None
   \<and> whole_writes (plain_env Little)
   \<and> fs (snd (generate counter_random (plain_env Little) [1, 2] ''m'' 42 [''A'', ''B'']
           (snd (generate counter_random (plain_env Little) [1, 2] ''m'' 42 [''A'', ''B''] empty_world))))
       = fs (snd (generate counter_random (plain_env Little) [1, 2] ''m'' 42 [''A'', ''B''] empty_world))"
proof -
  let ?r1 = "generate counter_random (plain_env Little) [1, 2] ''m'' 42 [''A'', ''B''] empty_world"
  let ?r2 = "generate counter_random (plain_env Little) [1, 2] ''m'' 42 [''A'', ''B''] (snd ?r1)"
  have 1: "fst ?r1 = None" by code_simp
  have 2: "fst ?r2 = None" by code_simp
  from 1 have a: "?r1 = (None, snd ?r1)" by (metis prod.collapse)
  from 2 have b: "?r2 = (None, snd ?r2)" by (metis prod.collapse)
  from second_run_changes_nothing[OF a b whole_writes_plain_env whole_writes_plain_env] 1 2
  show ?thesis by (simp add: whole_writes_plain_env)
qed

section \<open>Labels and contents\<close>

lemma jobs_product: "jobs sizes labels = List.product sizes labels"
  by (induction sizes) (simp_all add: jobs_def)

lemma jobs_nth:
  assumes "i < length sizes" "k < length labels"
  shows "i * length labels + k < length (jobs sizes labels)"
    and "jobs sizes labels ! (i * length labels + k) = (sizes ! i, labels ! k)"
proof -
  from assms(2) have "i * length labels + k < Suc i * length labels" by simp
  also from assms(1) have "\<dots> \<le> length sizes * length labels"
    by (simp add: Suc_leI mult_le_mono1 del: mult_Suc)
  finally show 1: "i * length labels + k < length (jobs sizes labels)"
    by (simp add: length_jobs)
  then have "i * length labels + k < length sizes * length labels" by (simp add: length_jobs)
  moreover from assms(2) have "(i * length labels + k) div length labels = i"
    by (metis add.commute add_cancel_left_left div_less div_mult_self3 less_nat_zero_code)
  ultimately show "jobs sizes labels ! (i * length labels + k) = (sizes ! i, labels ! k)"
    using product_nth[of "i * length labels + k" sizes labels] assms(2)
    by (simp add: jobs_product)
qed

lemma map_fst_jobs:
  "map fst (jobs sizes labels) = concat (map (replicate (length labels)) sizes)"
  by (induction sizes) (simp_all add: jobs_def comp_def map_replicate_const)

lemma distinct_job_paths:
  assumes "distinct js" "\<forall>j \<in> set js. plain_label (snd j)"
  shows "distinct (map (\<lambda>j. resolve (filepath_of dir j)) js)"
proof -
  have "inj_on (\<lambda>j. resolve (filepath_of dir j)) (set js)"
  proof (rule inj_onI)
    fix x y assume "x \<in> set js" "y \<in> set js"
      and e: "resolve (filepath_of dir x) = resolve (filepath_of dir y)"
    with assms(2) have "plain_label (snd x)" "plain_label (snd y)" by auto
    from resolve_filepath_of_inject[OF this e] show "x = y" .
  qed
  with assms(1) show ?thesis by (simp add: distinct_map)
qed

lemma written_at_index:
  assumes "distinct (map (\<lambda>j. resolve (filepath_of dir j)) js)" "n < length js"
  shows "write_all f (writes G bo dir rng js) (resolve (filepath_of dir (js ! n)))
     = Some (File (tobytes bo
         \<lparr>shape = (fst (js ! n), fst (js ! n)),
          data = take (fst (js ! n) * fst (js ! n))
                   (drop (offset js n) (stream G rng (offset js (length js))))\<rparr>))"
proof -
  let ?ws = "writes G bo dir rng js"
  from assms(1) have d: "distinct (map fst ?ws)" by (simp add: map_fst_writes)
  from assms(2) have "?ws ! n \<in> set ?ws" by (simp add: length_writes)
  then have "(resolve (filepath_of dir (js ! n)), tobytes bo (matrices G rng js ! n)) \<in> set ?ws"
    using assms(2) by (simp add: writes_nth)
  from write_all_distinct[OF d this] assms(2) show ?thesis by (simp add: matrices_nth)
qed

lemma offset_jobs:
  assumes "i < length sizes" "k < length labels"
  shows "offset (jobs sizes labels) (i * length labels + k)
     = (\<Sum>s \<leftarrow> take i sizes. length labels * (s * s)) + k * (sizes ! i * sizes ! i)"
  using assms(1)
proof (induction sizes arbitrary: i)
  case Nil
  then show ?case by simp
next
  case (Cons s sizes)
  let ?L = "length labels"
  have j: "jobs (s # sizes) labels = map (Pair s) labels @ jobs sizes labels"
    by (simp add: jobs_def)
  show ?case
  proof (cases i)
    case 0
    with assms(2) show ?thesis
      by (simp add: j offset_def take_map comp_def sum_list_triv)
  next
    case (Suc m)
    with Cons.prems have m: "m < length sizes" by simp
    have "take (Suc m * ?L + k) (jobs (s # sizes) labels)
        = map (Pair s) labels @ take (m * ?L + k) (jobs sizes labels)"
      by (simp add: j)
    then have "offset (jobs (s # sizes) labels) (Suc m * ?L + k)
        = ?L * (s * s) + offset (jobs sizes labels) (m * ?L + k)"
      by (simp add: offset_def comp_def sum_list_triv)
    with Cons.IH[OF m] Suc show ?thesis by simp
  qed
qed

text \<open>
  C10. A label only names the file. In a complete run with distinct sizes and labels, on
  a platform that does not cut a write short, the file of the \<open>i\<close>-th size and \<open>k\<close>-th
  label holds the block of the stream that starts after the draws of the matrices before
  it, \<open>size * size\<close> draws each; where the block starts depends on the sizes and on the
  number of labels only. A run with other labels in place of these writes the same bytes
  to the files the other labels name.
\<close>

theorem labels_only_name_the_files:
  assumes "generate G env1 sizes dir seed labels w1 = (None, w1')"
    and "generate G env2 sizes dir seed labels' w2 = (None, w2')"
    and "whole_writes env1" and "whole_writes env2"
    and "native env2 = native env1" and "length labels' = length labels"
    and "distinct sizes" and "distinct labels" and "distinct labels'"
    and "\<forall>l \<in> set labels. plain_label l" and "\<forall>l \<in> set labels'. plain_label l"
    and "i < length sizes" and "k < length labels"
  shows "\<exists>rng. default_rng G seed = Inr rng
       \<and> (let s = sizes ! i;
              start = (\<Sum>s' \<leftarrow> take i sizes. length labels * (s' * s')) + k * (s * s);
              total = (\<Sum>s' \<leftarrow> sizes. length labels * (s' * s'));
              bs = tobytes (native env1)
                     \<lparr>shape = (s, s),
                      data = take (s * s) (drop start (stream G rng total))\<rparr>
          in fs w1' (resolve (path_join dir (filename_of (labels ! k) s))) = Some (File bs)
           \<and> fs w2' (resolve (path_join dir (filename_of (labels' ! k) s))) = Some (File bs))"
proof -
  from generate_ok[OF assms(1)] obtain rng where g: "default_rng G seed = Inr rng" by blast
  let ?bo = "native env1"
  let ?L = "length labels"
  let ?n = "i * ?L + k"
  let ?s = "sizes ! i"
  let ?start = "(\<Sum>s' \<leftarrow> take i sizes. ?L * (s' * s')) + k * (?s * ?s)"
  let ?total = "(\<Sum>s' \<leftarrow> sizes. ?L * (s' * s'))"
  let ?bs = "tobytes ?bo \<lparr>shape = (?s, ?s), data = take (?s * ?s) (drop ?start (stream G rng ?total))\<rparr>"
  have content: "fs v' (resolve (path_join dir (filename_of (ls ! k) ?s))) = Some (File ?bs)"
    if run: "generate G env sizes dir seed ls v = (None, v')" and ww: "whole_writes env"
      and bo: "native env = ?bo"
      and len: "length ls = ?L" and dl: "distinct ls" and pl: "\<forall>l \<in> set ls. plain_label l"
    for env ls and v v' :: world
  proof -
    let ?js = "jobs sizes ls"
    from assms(12,13) len have ik: "i < length sizes" "k < length ls" by simp_all
    from jobs_nth[OF ik] len have n: "?n < length ?js" "?js ! ?n = (?s, ls ! k)" by simp_all
    have "distinct ?js" using assms(7) dl by (simp add: jobs_product distinct_product)
    moreover have "\<forall>j \<in> set ?js. plain_label (snd j)" using pl by (auto simp add: set_jobs)
    ultimately have d: "distinct (map (\<lambda>j. resolve (filepath_of dir j)) ?js)"
      by (rule distinct_job_paths)
    have st: "offset ?js ?n = ?start" using offset_jobs[OF ik] len by simp
    have "offset ?js (length ?js) = sum_list (map (\<lambda>j. fst j * fst j) ?js)"
      by (simp add: offset_def)
    also have "\<dots> = sum_list (map (\<lambda>s. s * s) (map fst ?js))" by (simp add: comp_def)
    also have "\<dots> = ?total"
      unfolding map_fst_jobs len by (induction sizes) (simp_all add: sum_list_replicate)
    finally have tot: "offset ?js (length ?js) = ?total" .
    from generate_ok[OF run] ww bo g obtain u :: world where
      u: "fs v' = write_all (fs u) (writes G ?bo dir rng ?js)" by auto
    from written_at_index[OF d n(1), of "fs u" G ?bo rng] show ?thesis
      unfolding u n(2) st tot by (simp add: filepath_of_def)
  qed
  from content[OF assms(1,3) refl refl assms(8,10)] content[OF assms(2,4,5,6) assms(9,11)] g
  show ?thesis by (simp add: Let_def)
qed

theorem labels_only_name_the_files_witness:
  "fst (generate counter_random (plain_env Little) [1, 2] ''m'' 42 [''A'', ''B''] empty_world) = None
   \<and> fst (generate counter_random (plain_env Little) [1, 2] ''m'' 42 [''left'', ''right''] empty_world) = None
   \<and> whole_writes (plain_env Little)
   \<and> fs (snd (generate counter_random (plain_env Little) [1, 2] ''m'' 42 [''A'', ''B''] empty_world))
        (resolve (path_join ''m'' (filename_of ''B'' 2)))
      = Some (File (tobytes Little \<lparr>shape = (2, 2), data = take 4 (drop 6 (stream counter_random 42 10))\<rparr>))
   \<and> fs (snd (generate counter_random (plain_env Little) [1, 2] ''m'' 42 [''left'', ''right''] empty_world))
        (resolve (path_join ''m'' (filename_of ''right'' 2)))
      = Some (File (tobytes Little \<lparr>shape = (2, 2), data = take 4 (drop 6 (stream counter_random 42 10))\<rparr>))"
proof -
  let ?r1 = "generate counter_random (plain_env Little) [1, 2] ''m'' 42 [''A'', ''B''] empty_world"
  let ?r2 = "generate counter_random (plain_env Little) [1, 2] ''m'' 42 [''left'', ''right''] empty_world"
  have 1: "fst ?r1 = None" by code_simp
  have 2: "fst ?r2 = None" by code_simp
  from 1 have a: "?r1 = (None, snd ?r1)" by (metis prod.collapse)
  from 2 have b: "?r2 = (None, snd ?r2)" by (metis prod.collapse)
  have p: "\<forall>l \<in> set [''A'', ''B'']. plain_label l" "\<forall>l \<in> set [''left'', ''right'']. plain_label l"
    by (simp_all add: plain_label_def)
  have g: "default_rng counter_random 42 = Inr 42" by (simp add: counter_random_def)
  from labels_only_name_the_files[OF a b whole_writes_plain_env whole_writes_plain_env refl _ _ _ _ p,
      of 1 1] 1 2 whole_writes_plain_env[of Little]
  show ?thesis by (simp add: Let_def native_plain_env g)
qed

end
